theory Spec2Isabelle
  imports Main "HOL-Library.Sublist" "HOL-Library.Log_Nat"
begin

section \<open>ConcurrencyLimiter: \<open>transferLimiter\<close>\<close>

text \<open>
  The Go struct holds a mutex, a condition variable and two \<open>int\<close> fields. Every method
  runs its body under the mutex, so each call is one atomic step on the pair
  \<open>(active, max)\<close>. The field \<open>max\<close> is called \<open>max_lim\<close> here (\<open>max\<close> is a HOL constant).
  Go's \<open>int\<close> is modelled by \<open>int\<close>: the only arithmetic is \<open>active++\<close> under
  \<open>active < max\<close> and \<open>active--\<close> under \<open>active > 0\<close>, which cannot leave the machine range.
\<close>

record transferLimiter =
  active :: int
  max_lim :: int

definition newTransferLimiter :: "int \<Rightarrow> transferLimiter" where
  "newTransferLimiter m = \<lparr>active = 0, max_lim = (if m < 1 then 1 else m)\<rparr>"

text \<open>
  \<open>Acquire\<close> waits on the condition variable while \<open>active >= max\<close>. A call that cannot
  return in the current state is \<open>None\<close> (the caller stays parked, the state is untouched);
  a call that returns has incremented \<open>active\<close>.
\<close>

definition Acquire :: "transferLimiter \<Rightarrow> transferLimiter option" where
  "Acquire l = (if active l \<ge> max_lim l then None else Some (l\<lparr>active := active l + 1\<rparr>))"

definition Release :: "transferLimiter \<Rightarrow> transferLimiter" where
  "Release l = (if active l > 0 then l\<lparr>active := active l - 1\<rparr> else l)"

definition SetMax :: "int \<Rightarrow> transferLimiter \<Rightarrow> transferLimiter" where
  "SetMax m l = l\<lparr>max_lim := (if m < 1 then 1 else m)\<rparr>"

text \<open>
  A history of the limiter is the sequence of calls in the order in which they took the
  mutex and returned. \<open>run_calls\<close> replays it; it is \<open>None\<close> when some \<open>Acquire\<close> of the
  sequence could not have returned at its place.
\<close>

datatype limiter_call = CallAcquire | CallRelease | CallSetMax int

fun run_calls :: "transferLimiter \<Rightarrow> limiter_call list \<Rightarrow> transferLimiter option" where
  "run_calls l [] = Some l"
| "run_calls l (CallAcquire # cs) =
     (case Acquire l of None \<Rightarrow> None | Some l' \<Rightarrow> run_calls l' cs)"
| "run_calls l (CallRelease # cs) = run_calls (Release l) cs"
| "run_calls l (CallSetMax m # cs) = run_calls (SetMax m l) cs"



section \<open>Strings\<close>

text \<open>
  A Go string is a sequence of bytes; it is modelled by \<open>string\<close> (a \<open>char list\<close>, one
  \<open>char\<close> per byte). Text is UTF-8: a rune outside ASCII is the list of its bytes.
\<close>

definition LF :: char where "LF = CHR 0x0A"
definition CR :: char where "CR = CHR 0x0D"

definition HasPrefix :: "string \<Rightarrow> string \<Rightarrow> bool" where
  "HasPrefix s pre = (length pre \<le> length s \<and> take (length pre) s = pre)"

definition HasSuffix :: "string \<Rightarrow> string \<Rightarrow> bool" where
  "HasSuffix s suf = (length suf \<le> length s \<and> drop (length s - length suf) s = suf)"

definition TrimPrefix :: "string \<Rightarrow> string \<Rightarrow> string" where
  "TrimPrefix s pre = (if HasPrefix s pre then drop (length pre) s else s)"

section \<open>DiagnosticRingBuffer: \<open>ringBuffer\<close>\<close>

text \<open>
  The fields are \<open>data []byte\<close> and \<open>cap int\<close> (called \<open>rb_data\<close> and \<open>rb_cap\<close> here). A
  slice expression out of range panics in Go; the panic is the value \<open>None\<close>.
  \<open>raw[len(raw)-b.cap:]\<close> is in range exactly when \<open>0 \<le> len(raw) - cap \<le> len(raw)\<close>.
\<close>

record ringBuffer =
  rb_data :: string
  rb_cap :: int

definition newRingBuffer :: "int \<Rightarrow> ringBuffer" where
  "newRingBuffer capacity = \<lparr>rb_data = [], rb_cap = (if capacity < 1 then 1 else capacity)\<rparr>"

text \<open>\<open>s[lo:]\<close> on a byte slice: panics unless \<open>0 \<le> lo \<le> len(s)\<close>.\<close>

definition slice_from :: "string \<Rightarrow> int \<Rightarrow> string option" where
  "slice_from s lo = (if 0 \<le> lo \<and> lo \<le> int (length s) then Some (drop (nat lo) s) else None)"

definition AppendLine :: "string \<Rightarrow> ringBuffer \<Rightarrow> ringBuffer option" where
  "AppendLine line b =
     (if line = [] then Some b
      else
        let raw = (if HasSuffix line [LF] then line else line @ [LF]) in
        if int (length raw) \<ge> rb_cap b then
          (case slice_from raw (int (length raw) - rb_cap b) of
             None \<Rightarrow> None
           | Some d \<Rightarrow> Some (b\<lparr>rb_data := d\<rparr>))
        else if int (length (rb_data b)) + int (length raw) > rb_cap b then
          (case slice_from (rb_data b) (int (length (rb_data b)) + int (length raw) - rb_cap b) of
             None \<Rightarrow> None
           | Some d \<Rightarrow> Some (b\<lparr>rb_data := d @ raw\<rparr>))
        else Some (b\<lparr>rb_data := rb_data b @ raw\<rparr>))"

text \<open>A sequence of \<open>AppendLine\<close> calls on one buffer, in order.\<close>

fun AppendLines :: "ringBuffer \<Rightarrow> string list \<Rightarrow> ringBuffer option" where
  "AppendLines b [] = Some b"
| "AppendLines b (line # ls) =
     (case AppendLine line b of None \<Rightarrow> None | Some b' \<Rightarrow> AppendLines b' ls)"

text \<open>
  What the calls append, in the words of the specification: each line newline-terminated
  (a line already ending in a newline is taken as it is). An empty line appends nothing:
  the call returns before touching the buffer.
\<close>

definition terminated :: "string \<Rightarrow> string" where
  "terminated line = (if line = [] then [] else if HasSuffix line [LF] then line else line @ [LF])"

definition appended_stream :: "string list \<Rightarrow> string" where
  "appended_stream ls = concat (map terminated ls)"

text \<open>The last \<open>n\<close> bytes of \<open>s\<close> (all of \<open>s\<close> when it is shorter).\<close>

definition last_bytes :: "nat \<Rightarrow> string \<Rightarrow> string" where
  "last_bytes n s = drop (length s - n) s"

section \<open>\<open>strings.TrimSpace\<close>\<close>

text \<open>
  \<open>strings.TrimSpace\<close> removes leading and trailing white space as \<open>unicode.IsSpace\<close>
  defines it, rune by rune: the six ASCII characters tab, newline, vertical tab, form
  feed, carriage return and space, and the runes U+0085, U+00A0, U+1680, U+2000 to U+200A,
  U+2028, U+2029, U+202F, U+205F and U+3000. On bytes, a white-space rune at the head
  (at the end) of a string is one of the ASCII bytes or the UTF-8 encoding of one of the
  other runes as a prefix (a suffix): a lead byte always starts a rune, and an invalid
  byte decodes to U+FFFD, which is not white space.
\<close>

definition asciiSpace :: "char \<Rightarrow> bool" where
  "asciiSpace c = (c \<in> {CHR 0x09, CHR 0x0A, CHR 0x0B, CHR 0x0C, CHR 0x0D, CHR 0x20})"

definition unicodeSpaces :: "string list" where
  "unicodeSpaces =
     [[CHR 0xC2, CHR 0x85], [CHR 0xC2, CHR 0xA0], [CHR 0xE1, CHR 0x9A, CHR 0x80],
      [CHR 0xE2, CHR 0x80, CHR 0x80], [CHR 0xE2, CHR 0x80, CHR 0x81],
      [CHR 0xE2, CHR 0x80, CHR 0x82], [CHR 0xE2, CHR 0x80, CHR 0x83],
      [CHR 0xE2, CHR 0x80, CHR 0x84], [CHR 0xE2, CHR 0x80, CHR 0x85],
      [CHR 0xE2, CHR 0x80, CHR 0x86], [CHR 0xE2, CHR 0x80, CHR 0x87],
      [CHR 0xE2, CHR 0x80, CHR 0x88], [CHR 0xE2, CHR 0x80, CHR 0x89],
      [CHR 0xE2, CHR 0x80, CHR 0x8A], [CHR 0xE2, CHR 0x80, CHR 0xA8],
      [CHR 0xE2, CHR 0x80, CHR 0xA9], [CHR 0xE2, CHR 0x80, CHR 0xAF],
      [CHR 0xE2, CHR 0x81, CHR 0x9F], [CHR 0xE3, CHR 0x80, CHR 0x80]]"

text \<open>
  The number of bytes of the white-space rune that starts (ends) \<open>s\<close>; \<open>0\<close> when \<open>s\<close> is
  empty or starts (ends) with another rune.
\<close>

definition spaceAtHead :: "string \<Rightarrow> nat" where
  "spaceAtHead s =
     (case s of [] \<Rightarrow> 0
      | c # _ \<Rightarrow>
          if asciiSpace c then 1
          else (case filter (HasPrefix s) unicodeSpaces of [] \<Rightarrow> 0 | e # _ \<Rightarrow> length e))"

definition spaceAtEnd :: "string \<Rightarrow> nat" where
  "spaceAtEnd s =
     (if s = [] then 0
      else if asciiSpace (last s) then 1
      else (case filter (HasSuffix s) unicodeSpaces of [] \<Rightarrow> 0 | e # _ \<Rightarrow> length e))"

function TrimLeftSpace :: "string \<Rightarrow> string" where
  "TrimLeftSpace s = (if spaceAtHead s = 0 then s else TrimLeftSpace (drop (spaceAtHead s) s))"
  by pat_completeness auto
termination
  by (relation "measure length") (auto simp: spaceAtHead_def split: list.splits)

function TrimRightSpace :: "string \<Rightarrow> string" where
  "TrimRightSpace s =
     (if spaceAtEnd s = 0 then s else TrimRightSpace (take (length s - spaceAtEnd s) s))"
  by pat_completeness auto
termination
  by (relation "measure length") (auto simp: spaceAtEnd_def split: if_splits)

declare TrimLeftSpace.simps [simp del] TrimRightSpace.simps [simp del]

definition TrimSpace :: "string \<Rightarrow> string" where
  "TrimSpace s = TrimRightSpace (TrimLeftSpace s)"

section \<open>OutputLineSplitter: \<open>splitOnCRLF\<close>\<close>

text \<open>
  \<open>bytes.IndexAny(s, chars)\<close> for ASCII \<open>chars\<close>: the index of the first byte of \<open>s\<close> that
  is one of \<open>chars\<close>, \<open>None\<close> for Go's \<open>-1\<close>.
\<close>

definition IndexAny :: "string \<Rightarrow> string \<Rightarrow> nat option" where
  "IndexAny s chars =
     (let n = length (takeWhile (\<lambda>c. c \<notin> set chars) s)
      in if n < length s then Some n else None)"

text \<open>
  The inner loop: while \<open>pending\<close> holds a CR or LF, cut the segment before the first one,
  trim it and emit it unless it is empty. \<open>out\<close> is the list of segments emitted so far
  (the calls of \<open>emit\<close>, in order).
\<close>

function drain :: "string \<Rightarrow> string list \<Rightarrow> string \<times> string list" where
  "drain pending out =
     (case IndexAny pending [CR, LF] of
        None \<Rightarrow> (pending, out)
      | Some idx \<Rightarrow>
          let seg = TrimSpace (take idx pending);
              pending' = drop (idx + 1) pending
          in drain pending' (if seg \<noteq> [] then out @ [seg] else out))"
  by pat_completeness auto
termination
  by (relation "measure (\<lambda>(pending, out). length pending)")
     (auto simp: IndexAny_def Let_def split: if_splits)

declare drain.simps [simp del]

text \<open>
  The reader is the sequence of results of its \<open>Read\<close> calls: the bytes read (\<open>buf[:n]\<close>,
  possibly none) and the error, if any. \<open>errors.Is(err, io.EOF)\<close> is the constructor
  \<open>EOF\<close>. The function returns at the first read that reports an error; when the reads
  run out before that, the call has not returned (\<open>StillReading\<close>).
\<close>

datatype read_error = EOF | OtherError string

datatype split_result = StillReading | Returned "read_error option"

fun splitOnCRLF_loop ::
  "(string \<times> read_error option) list \<Rightarrow> string \<Rightarrow> string list \<Rightarrow> string list \<times> split_result"
where
  "splitOnCRLF_loop [] pending out = (out, StillReading)"
| "splitOnCRLF_loop ((chunk, err) # reads) pending out =
     (let (pending', out') =
            (if length chunk > 0 then drain (pending @ chunk) out else (pending, out))
      in case err of
           None \<Rightarrow> splitOnCRLF_loop reads pending' out'
         | Some e \<Rightarrow>
             if e = EOF then
               (if length pending' > 0 then
                  (let seg = TrimSpace pending'
                   in if seg \<noteq> [] then (out' @ [seg], Returned None)
                      else (out', Returned None))
                else (out', Returned None))
             else (out', Returned (Some e)))"

definition splitOnCRLF :: "(string \<times> read_error option) list \<Rightarrow> string list \<times> split_result" where
  "splitOnCRLF reads = splitOnCRLF_loop reads [] []"

text \<open>
  The specification of the splitter, on the whole stream: cut it at every CR and every
  LF, trim each piece, keep the non-empty ones in order. \<open>cutCRLF cur s\<close> returns the pieces
  that end with a terminator and the trailing piece that has none; \<open>cur\<close> is the piece
  being read.
\<close>

fun cutCRLF :: "string \<Rightarrow> string \<Rightarrow> string list \<times> string" where
  "cutCRLF cur [] = ([], cur)"
| "cutCRLF cur (c # s) =
     (if c = CR \<or> c = LF then (case cutCRLF [] s of (ps, r) \<Rightarrow> (cur # ps, r))
      else cutCRLF (cur @ [c]) s)"

definition kept :: "string list \<Rightarrow> string list" where
  "kept ps = filter (\<lambda>seg. seg \<noteq> []) (map TrimSpace ps)"

definition stream_lines :: "string \<Rightarrow> string list" where
  "stream_lines s = (case cutCRLF [] s of (ps, r) \<Rightarrow> kept (ps @ [r]))"

definition terminated_lines :: "string \<Rightarrow> string list" where
  "terminated_lines s = kept (fst (cutCRLF [] s))"

text \<open>A reader that delivers the chunks \<open>cs\<close> without error and then reports \<open>e\<close> together
  with a last chunk \<open>c\<close> (empty when the error comes alone).\<close>

definition reads_of :: "string list \<Rightarrow> string \<Rightarrow> read_error \<Rightarrow> (string \<times> read_error option) list" where
  "reads_of cs c e = map (\<lambda>x. (x, None)) cs @ [(c, Some e)]"

text \<open>\<open>nocrlf s\<close>: no byte of \<open>s\<close> is a CR or an LF.\<close>

definition nocrlf :: "string \<Rightarrow> bool" where
  "nocrlf s = (CR \<notin> set s \<and> LF \<notin> set s)"

section \<open>Regular expressions of Go's \<open>regexp\<close> package\<close>

text \<open>
  The four patterns of the parser are values of the type \<open>re\<close>, matched on bytes by a
  backtracking matcher that lists the ways a pattern can match at a position in Go's
  order of preference (leftmost-first: a greedy repetition tries one more iteration before
  it stops, an alternation tries its left branch first). The head of the list is the
  match \<open>regexp\<close> reports.

  \<open>Rune encs\<close> matches one rune out of a class; the class is the list of the UTF-8
  encodings of its runes (one byte for an ASCII rune). A lead byte always starts a rune
  and no pattern here can start at a continuation byte, so matching the encoding as a
  byte prefix is matching the rune. \<open>WordBoundary\<close> is \<open>\b\<close> (ASCII word characters),
  \<open>EndText\<close> is \<open>$\<close> without the \<open>m\<close> flag, \<open>Group n r\<close> is the \<open>n\<close>-th capturing group.
\<close>

datatype re =
    Rune "string list"
  | Empty
  | Seq re re
  | Alt re re
  | Star re
  | Group nat re
  | WordBoundary
  | EndText

text \<open>
  A matcher state: the byte before the position (\<open>None\<close> at the start of the text), the
  rest of the text, and the captures made so far, the latest first.
\<close>

type_synonym mstate = "char option \<times> string \<times> (nat \<times> string) list"

definition isWordChar :: "char \<Rightarrow> bool" where
  "isWordChar c =
     (let n = (of_char c :: int)
      in (48 \<le> n \<and> n \<le> 57) \<or> (65 \<le> n \<and> n \<le> 90) \<or> (97 \<le> n \<and> n \<le> 122) \<or> n = 95)"

definition wordBefore :: "char option \<Rightarrow> bool" where
  "wordBefore p = (case p of None \<Rightarrow> False | Some c \<Rightarrow> isWordChar c)"

definition wordAfter :: "string \<Rightarrow> bool" where
  "wordAfter s = (case s of [] \<Rightarrow> False | c # _ \<Rightarrow> isWordChar c)"

definition rest_of :: "mstate \<Rightarrow> string" where
  "rest_of st = fst (snd st)"

function matches :: "re \<Rightarrow> mstate \<Rightarrow> mstate list" where
  "matches (Rune encs) st =
     (case filter (\<lambda>e. e \<noteq> [] \<and> HasPrefix (rest_of st) e) encs of
        [] \<Rightarrow> []
      | e # _ \<Rightarrow> [(Some (last e), drop (length e) (rest_of st), snd (snd st))])"
| "matches Empty st = [st]"
| "matches (Seq a b) st = concat (map (matches b) (matches a st))"
| "matches (Alt a b) st = matches a st @ matches b st"
| "matches (Star a) st =
     concat (map (matches (Star a))
       (filter (\<lambda>st'. length (rest_of st') < length (rest_of st)) (matches a st))) @ [st]"
| "matches (Group n a) st =
     map (\<lambda>st'. (fst st', rest_of st',
                 (n, take (length (rest_of st) - length (rest_of st')) (rest_of st)) # snd (snd st')))
       (matches a st)"
| "matches WordBoundary st = (if wordBefore (fst st) \<noteq> wordAfter (rest_of st) then [st] else [])"
| "matches EndText st = (if rest_of st = [] then [st] else [])"
  by pat_completeness auto
termination
  by (relation "inv_image (less_than <*lex*> less_than) (\<lambda>(r, st). (size r, length (rest_of st)))")
     auto

text \<open>
  The leftmost match: try the position, then the next byte. The result is the matched
  text, the captures, the byte before the end of the match and the text after it.
\<close>

fun search :: "re \<Rightarrow> char option \<Rightarrow> string \<Rightarrow> (string \<times> mstate) option" where
  "search r p [] =
     (case matches r (p, [], []) of [] \<Rightarrow> None | st # _ \<Rightarrow> Some ([], st))"
| "search r p (c # s) =
     (case matches r (p, c # s, []) of
        [] \<Rightarrow> search r (Some c) s
      | st # _ \<Rightarrow> Some (take (length (c # s) - length (rest_of st)) (c # s), st))"

fun ngroups :: "re \<Rightarrow> nat" where
  "ngroups (Group n a) = max n (ngroups a)"
| "ngroups (Seq a b) = max (ngroups a) (ngroups b)"
| "ngroups (Alt a b) = max (ngroups a) (ngroups b)"
| "ngroups (Star a) = ngroups a"
| "ngroups r = 0"

text \<open>
  \<open>FindStringSubmatch\<close>: \<open>None\<close> for Go's \<open>nil\<close>, otherwise the matched text followed by
  the text of each group (empty for a group that took no part in the match).
\<close>

definition FindStringSubmatch :: "re \<Rightarrow> string \<Rightarrow> string list option" where
  "FindStringSubmatch r s =
     (case search r None s of
        None \<Rightarrow> None
      | Some (full, st) \<Rightarrow>
          Some (full # map (\<lambda>n. case map_of (snd (snd st)) n of None \<Rightarrow> [] | Some g \<Rightarrow> g)
                         [1 ..< Suc (ngroups r)]))"

text \<open>
  \<open>ReplaceAllString(s, "")\<close>: delete every match, searching on after the end of each one.
  After an empty match Go copies the next byte and goes on.
\<close>

function deleteAll :: "re \<Rightarrow> char option \<Rightarrow> string \<Rightarrow> string" where
  "deleteAll r p s =
     (case matches r (p, s, []) of
        [] \<Rightarrow> (case s of [] \<Rightarrow> [] | c # s' \<Rightarrow> c # deleteAll r (Some c) s')
      | st # _ \<Rightarrow>
          if length (rest_of st) < length s then deleteAll r (fst st) (rest_of st)
          else (case s of [] \<Rightarrow> [] | c # s' \<Rightarrow> c # deleteAll r (Some c) s'))"
  by pat_completeness auto
termination
  by (relation "measure (\<lambda>(r, p, s). length s)") auto

declare matches.simps [simp del] deleteAll.simps [simp del]

text \<open>Building blocks: a sequence, a class of ASCII bytes, a range of bytes, \<open>x+\<close>, \<open>x?\<close>.\<close>

definition seqs :: "re list \<Rightarrow> re" where
  "seqs rs = foldr Seq rs Empty"

definition cls :: "string \<Rightarrow> re" where
  "cls cs = Rune (map (\<lambda>c. [c]) cs)"

definition byte_range :: "nat \<Rightarrow> nat \<Rightarrow> string" where
  "byte_range lo hi = map char_of [lo ..< Suc hi]"

definition Plus :: "re \<Rightarrow> re" where
  "Plus r = Seq r (Star r)"

definition Opt :: "re \<Rightarrow> re" where
  "Opt r = Alt r Empty"

text \<open>
  A literal under the flag \<open>i\<close>: Go folds case with \<open>unicode.SimpleFold\<close>, so a letter
  matches its two ASCII cases, and moreover \<open>k\<close> matches the Kelvin sign U+212A (bytes
  E2 84 AA) and \<open>s\<close> the long s U+017F (bytes C5 BF).
\<close>

definition lowerASCII :: "char \<Rightarrow> char" where
  "lowerASCII c = (let n = (of_char c :: int) in if 65 \<le> n \<and> n \<le> 90 then char_of (n + 32) else c)"

definition upperASCII :: "char \<Rightarrow> char" where
  "upperASCII c = (let n = (of_char c :: int) in if 97 \<le> n \<and> n \<le> 122 then char_of (n - 32) else c)"

definition kelvinSign :: string where
  "kelvinSign = [CHR 0xE2, CHR 0x84, CHR 0xAA]"

definition longS :: string where
  "longS = [CHR 0xC5, CHR 0xBF]"

definition foldRune :: "char \<Rightarrow> string list" where
  "foldRune c =
     (if lowerASCII c = upperASCII c then [[c]]
      else [[lowerASCII c], [upperASCII c]]
           @ (if lowerASCII c = CHR ''k'' then [kelvinSign] else [])
           @ (if lowerASCII c = CHR ''s'' then [longS] else []))"

definition ci :: "string \<Rightarrow> re" where
  "ci s = seqs (map (\<lambda>c. Rune (foldRune c)) s)"

definition cls_ci :: "string \<Rightarrow> re" where
  "cls_ci cs = Rune (concat (map foldRune cs))"

definition digit :: re where
  "digit = cls ''0123456789''"

text \<open>\<open>\s\<close> is \<open>[\t\n\f\r ]\<close> in Go's syntax (no vertical tab).\<close>

definition ws :: re where
  "ws = cls [CHR 0x09, CHR 0x0A, CHR 0x0C, CHR 0x0D, CHR 0x20]"

text \<open>\<open>[0-9]+(?:\.[0-9]+)?\<close>, the number of the percentage and speed patterns.\<close>

definition number :: re where
  "number = Seq (Plus digit) (Opt (Seq (cls ''.'') (Plus digit)))"

text \<open>
  \<^verbatim>\<open>reOKSize    = (?i)\bOK\s*size:\s*([0-9][0-9,]*)(?:\b|$)\<close>

  \<^verbatim>\<open>reProgress  = (?i)\bProgress:\s*([0-9]+(?:\.[0-9]+)?)\s*%\<close>

  \<^verbatim>\<open>reSpeedUnit = (?i)\bSpeed:\s*([0-9]+(?:\.[0-9]+)?)\s*([kmgtp]?)(?:i)?b/s\<close>

  \<^verbatim>\<open>reANSIEsc   = \x1b\[[0-?]*[ -/]*[@-~]\<close>
\<close>

definition reOKSize :: re where
  "reOKSize = seqs [WordBoundary, ci ''OK'', Star ws, ci ''size:'', Star ws,
                    Group 1 (Seq digit (Star (cls ''0123456789,''))),
                    Alt WordBoundary EndText]"

definition reProgress :: re where
  "reProgress = seqs [WordBoundary, ci ''Progress:'', Star ws, Group 1 number, Star ws, cls ''%'']"

definition reSpeedUnit :: re where
  "reSpeedUnit = seqs [WordBoundary, ci ''Speed:'', Star ws, Group 1 number, Star ws,
                       Group 2 (Opt (cls_ci ''kmgtp'')), Opt (ci ''i''), ci ''b/s'']"

definition reANSIEsc :: re where
  "reANSIEsc = seqs [cls [CHR 0x1B], cls ''['', Star (cls (byte_range 0x30 0x3F)),
                     Star (cls (byte_range 0x20 0x2F)), cls (byte_range 0x40 0x7E)]"

definition stripANSI :: "string \<Rightarrow> string" where
  "stripANSI s = deleteAll reANSIEsc None s"

section \<open>\<open>float64\<close>\<close>

text \<open>
  An IEEE 754 binary64 value is a rational (a finite value), an infinity or NaN; every
  operation rounds its exact result to the nearest representable value, ties to even
  (\<open>round_f64\<close>: 53 significant bits, exponents down to the subnormal quantum \<open>2^-1074\<close>,
  overflow from \<open>2^1024 - 2^970\<close> on). The sign of zero is not kept: nothing in this code
  can tell \<open>-0\<close> from \<open>0\<close>.
\<close>

datatype float64 = Fin rat | PInf | NInf | NaN

text \<open>\<open>2^k\<close> for \<open>k \<ge> 0\<close>, by repeated squaring, and \<open>pow2 k\<close>, the rational \<open>2^k\<close> for any \<open>k\<close>.\<close>

function pow2nn :: "int \<Rightarrow> rat" where
  "pow2nn k =
     (if k \<le> 0 then 1
      else let h = pow2nn (k div 2) in if even k then h * h else 2 * (h * h))"
  by pat_completeness auto
termination
  by (relation "measure nat") auto

declare pow2nn.simps [simp del]

definition pow2 :: "int \<Rightarrow> rat" where
  "pow2 k = (if 0 \<le> k then pow2nn k else 1 / pow2nn (- k))"

text \<open>\<open>ilog2 a\<close> is \<open>\<lfloor>log\<^sub>2 a\<rfloor>\<close> for a positive rational \<open>a\<close>.\<close>

definition ilog2 :: "rat \<Rightarrow> int" where
  "ilog2 a =
     (case quotient_of a of
        (p, q) \<Rightarrow> let k = bitlen p - bitlen q in if pow2 k \<le> a then k else k - 1)"

definition roundHalfEven :: "rat \<Rightarrow> int" where
  "roundHalfEven x =
     (let f = \<lfloor>x\<rfloor>; d = x - of_int f
      in if d < 1 / 2 then f else if 1 / 2 < d then f + 1 else if even f then f else f + 1)"

definition round_f64 :: "rat \<Rightarrow> float64" where
  "round_f64 q =
     (if q = 0 then Fin 0
      else
        let a = \<bar>q\<bar>;
            e = max (ilog2 a) (- 1022);
            u = pow2 (e - 52);
            r = of_int (roundHalfEven (a / u)) * u
        in if pow2 1024 \<le> r then (if 0 < q then PInf else NInf)
           else Fin (if 0 < q then r else - r))"

definition fmul :: "float64 \<Rightarrow> float64 \<Rightarrow> float64" where
  "fmul x y =
     (case (x, y) of
        (Fin a, Fin b) \<Rightarrow> round_f64 (a * b)
      | (NaN, _) \<Rightarrow> NaN
      | (_, NaN) \<Rightarrow> NaN
      | (Fin a, PInf) \<Rightarrow> if a = 0 then NaN else if 0 < a then PInf else NInf
      | (Fin a, NInf) \<Rightarrow> if a = 0 then NaN else if 0 < a then NInf else PInf
      | (PInf, Fin b) \<Rightarrow> if b = 0 then NaN else if 0 < b then PInf else NInf
      | (NInf, Fin b) \<Rightarrow> if b = 0 then NaN else if 0 < b then NInf else PInf
      | (PInf, PInf) \<Rightarrow> PInf
      | (NInf, NInf) \<Rightarrow> PInf
      | (PInf, NInf) \<Rightarrow> NInf
      | (NInf, PInf) \<Rightarrow> NInf)"

definition fdiv :: "float64 \<Rightarrow> float64 \<Rightarrow> float64" where
  "fdiv x y =
     (case (x, y) of
        (Fin a, Fin b) \<Rightarrow>
          if b = 0 then (if a = 0 then NaN else if 0 < a then PInf else NInf)
          else round_f64 (a / b)
      | (NaN, _) \<Rightarrow> NaN
      | (_, NaN) \<Rightarrow> NaN
      | (Fin a, _) \<Rightarrow> Fin 0
      | (PInf, Fin b) \<Rightarrow> if 0 \<le> b then PInf else NInf
      | (NInf, Fin b) \<Rightarrow> if 0 \<le> b then NInf else PInf
      | (_, _) \<Rightarrow> NaN)"

text \<open>The comparison \<open>x > 0\<close>.\<close>

definition fpos :: "float64 \<Rightarrow> bool" where
  "fpos x = (case x of Fin a \<Rightarrow> 0 < a | PInf \<Rightarrow> True | _ \<Rightarrow> False)"

text \<open>The conversion \<open>float64(i)\<close> of an \<open>int64\<close>.\<close>

definition float64_of_int64 :: "int \<Rightarrow> float64" where
  "float64_of_int64 i = round_f64 (of_int i)"

text \<open>
  The conversion \<open>int64(x)\<close>: the value truncated towards zero when that is an \<open>int64\<close>.
  Otherwise Go leaves the result to the implementation; the model takes the value of
  amd64, \<open>-2^63 = -9223372036854775808\<close>.
\<close>

definition int64_indefinite :: int where
  "int64_indefinite = - 9223372036854775808"

definition truncate_rat :: "rat \<Rightarrow> int" where
  "truncate_rat a = (if 0 \<le> a then \<lfloor>a\<rfloor> else - \<lfloor>- a\<rfloor>)"

definition int64_of_float64 :: "float64 \<Rightarrow> int" where
  "int64_of_float64 x =
     (case x of
        Fin a \<Rightarrow>
          let t = truncate_rat a
          in if - 9223372036854775808 \<le> t \<and> t < 9223372036854775808 then t
             else int64_indefinite
      | _ \<Rightarrow> int64_indefinite)"

section \<open>\<open>strconv\<close>\<close>

definition isDigit :: "char \<Rightarrow> bool" where
  "isDigit c = (let n = (of_char c :: int) in 48 \<le> n \<and> n \<le> 57)"

text \<open>The value of a string of decimal digits.\<close>

definition decimalVal :: "string \<Rightarrow> int" where
  "decimalVal ds = foldl (\<lambda>n c. 10 * n + (of_char c - 48)) 0 ds"

text \<open>
  \<open>strconv.ParseInt(s, 10, 64)\<close>: an optional sign and one or more decimal digits; \<open>None\<close>
  is a non-nil error (a syntax error, or a value outside \<open>int64\<close>;
  \<open>9223372036854775808\<close> is \<open>2^63\<close>).
\<close>

definition ParseInt64 :: "string \<Rightarrow> int option" where
  "ParseInt64 s =
     (let (neg, ds) =
            (case s of
               [] \<Rightarrow> (False, [])
             | c # r \<Rightarrow> if c = CHR ''+'' then (False, r)
                        else if c = CHR ''-'' then (True, r) else (False, s))
      in if ds = [] \<or> \<not> list_all isDigit ds then None
         else
           let un = decimalVal ds
           in if \<not> neg \<and> 9223372036854775808 \<le> un then None
              else if neg \<and> 9223372036854775808 < un then None
              else Some (if neg then - un else un))"

definition parseCommaInt64 :: "string \<Rightarrow> int option" where
  "parseCommaInt64 s = ParseInt64 (filter (\<lambda>c. c \<noteq> CHR '','') s)"

text \<open>
  \<open>strconv.ParseFloat(s, 64)\<close> on the strings it is given here, the captures of
  \<open>[0-9]+(?:\.[0-9]+)?\<close>: the nearest \<open>float64\<close> of the decimal, and an error (\<open>None\<close>) when
  that is an infinity. Any other syntax is outside this model and reported as an error.
\<close>

definition ParseFloat64 :: "string \<Rightarrow> float64 option" where
  "ParseFloat64 s =
     (let ip = takeWhile isDigit s; r = dropWhile isDigit s
      in if ip = [] then None
         else
           (case r of
              [] \<Rightarrow> (case round_f64 (of_int (decimalVal ip)) of Fin v \<Rightarrow> Some (Fin v) | _ \<Rightarrow> None)
            | c # fp \<Rightarrow>
                if c = CHR ''.'' \<and> fp \<noteq> [] \<and> list_all isDigit fp then
                  (case round_f64 (of_int (decimalVal ip)
                                   + of_int (decimalVal fp) / 10 ^ length fp) of
                     Fin v \<Rightarrow> Some (Fin v)
                   | _ \<Rightarrow> None)
                else None))"

section \<open>ProgressLineParser\<close>

text \<open>
  \<open>strings.ToUpper\<close> maps rune by rune. On ASCII it is \<open>upperASCII\<close> on each byte; no rune
  outside ASCII has one of the letters \<open>K\<close>, \<open>M\<close>, \<open>G\<close>, \<open>T\<close>, \<open>P\<close> as its upper case (the Kelvin
  sign is its own upper case), so the \<open>switch\<close> below takes the same branch on the bytes
  mapped one by one.
\<close>

definition ToUpper :: "string \<Rightarrow> string" where
  "ToUpper s = map upperASCII s"

definition speedToBps :: "float64 \<Rightarrow> string \<Rightarrow> float64" where
  "speedToBps v unitPrefix =
     (let u = ToUpper unitPrefix; k = Fin 1024
      in if u = ''K'' then fmul v k
         else if u = ''M'' then fmul (fmul v k) k
         else if u = ''G'' then fmul (fmul (fmul v k) k) k
         else if u = ''T'' then fmul (fmul (fmul (fmul v k) k) k) k
         else if u = ''P'' then fmul (fmul (fmul (fmul (fmul v k) k) k) k) k
         else v)"

record parsedProgress =
  doneBytes :: int
  speedBps :: float64
  percent :: float64
  hasDone :: bool
  hasSpeed :: bool
  hasPercent :: bool

definition noProgress :: parsedProgress where
  "noProgress = \<lparr>doneBytes = 0, speedBps = Fin 0, percent = Fin 0,
                  hasDone = False, hasSpeed = False, hasPercent = False\<rparr>"

text \<open>The text the three patterns are matched on.\<close>

definition cleanSegment :: "string \<Rightarrow> string" where
  "cleanSegment seg = TrimPrefix (TrimSpace (stripANSI seg)) [CR]"

definition parseDone :: "string \<Rightarrow> parsedProgress \<Rightarrow> parsedProgress" where
  "parseDone clean out =
     (case FindStringSubmatch reOKSize clean of
        None \<Rightarrow> out
      | Some m \<Rightarrow>
          if length m = 2 then
            (case parseCommaInt64 (m ! 1) of
               None \<Rightarrow> out
             | Some v \<Rightarrow> out\<lparr>doneBytes := v, hasDone := True\<rparr>)
          else out)"

definition parsePercent :: "string \<Rightarrow> parsedProgress \<Rightarrow> parsedProgress" where
  "parsePercent clean out =
     (case FindStringSubmatch reProgress clean of
        None \<Rightarrow> out
      | Some m \<Rightarrow>
          if length m = 2 then
            (case ParseFloat64 (m ! 1) of
               None \<Rightarrow> out
             | Some v \<Rightarrow> out\<lparr>percent := v, hasPercent := True\<rparr>)
          else out)"

definition parseSpeed :: "string \<Rightarrow> parsedProgress \<Rightarrow> parsedProgress" where
  "parseSpeed clean out =
     (case FindStringSubmatch reSpeedUnit clean of
        None \<Rightarrow> out
      | Some m \<Rightarrow>
          if length m = 3 then
            (case ParseFloat64 (m ! 1) of
               None \<Rightarrow> out
             | Some v \<Rightarrow> out\<lparr>speedBps := speedToBps v (m ! 2), hasSpeed := True\<rparr>)
          else out)"

definition parseProgressSegment :: "string \<Rightarrow> parsedProgress" where
  "parseProgressSegment seg =
     (let clean = cleanSegment seg
      in parseSpeed clean (parsePercent clean (parseDone clean noProgress)))"

section \<open>Errors and the service\<close>

text \<open>
  A Go \<open>error\<close> is its text and the kinds of error found along its \<open>Unwrap\<close> chain, which
  is all that \<open>errors.Is\<close> and \<open>errors.As\<close> look at here: \<open>ExitError\<close> for
  \<open>*exec.ExitError\<close>, \<open>ErrNotFound\<close> for \<open>exec.ErrNotFound\<close>, \<open>ErrNotExist\<close> for
  \<open>os.ErrNotExist\<close>, \<open>ErrPermission\<close> for \<open>fs.ErrPermission\<close>. \<open>nil\<close> is \<open>None\<close>.
\<close>

datatype err_kind = ExitError | ErrNotFound | ErrNotExist | ErrPermission | ErrOther

datatype go_error = GoError (err_chain: "err_kind list") (err_text: string)

definition errors_New :: "string \<Rightarrow> go_error" where
  "errors_New msg = GoError [ErrOther] msg"

text \<open>\<open>fmt.Errorf(prefix + "%w", err)\<close> and \<open>fmt.Errorf("%w: %s", err, tail)\<close>.\<close>

definition wrap_prefix :: "string \<Rightarrow> go_error \<Rightarrow> go_error" where
  "wrap_prefix pre e = GoError (ErrOther # err_chain e) (pre @ err_text e)"

definition wrap_tail :: "go_error \<Rightarrow> string \<Rightarrow> go_error" where
  "wrap_tail e tail = GoError (ErrOther # err_chain e) (err_text e @ '': '' @ tail)"

definition ossutilStartFailed :: "go_error option \<Rightarrow> bool" where
  "ossutilStartFailed err =
     (case err of
        None \<Rightarrow> False
      | Some e \<Rightarrow>
          if ExitError \<in> set (err_chain e) then False
          else ErrNotFound \<in> set (err_chain e) \<or> ErrNotExist \<in> set (err_chain e)
               \<or> ErrPermission \<in> set (err_chain e))"

type_synonym TransferType = string
type_synonym TransferStatus = string

definition TransferTypeUpload :: TransferType where "TransferTypeUpload = ''upload''"
definition TransferTypeDownload :: TransferType where "TransferTypeDownload = ''download''"
definition TransferStatusQueued :: TransferStatus where "TransferStatusQueued = ''queued''"
definition TransferStatusInProgress :: TransferStatus where "TransferStatusInProgress = ''in-progress''"
definition TransferStatusSuccess :: TransferStatus where "TransferStatusSuccess = ''success''"
definition TransferStatusError :: TransferStatus where "TransferStatusError = ''error''"

text \<open>The \<open>int64\<close> fields are integers; the code does no arithmetic on them that can wrap.\<close>

record TransferUpdate =
  ID :: string
  Type :: TransferType
  Status :: TransferStatus
  Name :: string
  Bucket :: string
  Key :: string
  LocalPath :: string
  TotalBytes :: int
  DoneBytes :: int
  SpeedBytesPerSec :: float64
  EtaSeconds :: int
  Message :: string
  StartedAtMs :: int
  UpdatedAtMs :: int
  FinishedAtMs :: int

text \<open>
  The service: the two binary paths, the \<open>uint64\<close> counter of ids, whether a context has
  been set, the limiter (\<open>None\<close> for \<open>nil\<close>) and, as a record of what the service did, the
  updates handed to \<open>runtime.EventsEmit\<close> and the \<open>runTransfer\<close> goroutines launched, in
  order. \<open>'cfg\<close> is the type of the configuration that \<open>EnqueueUpload\<close> and \<open>EnqueueDownload\<close>
  pass on to \<open>runTransfer\<close>.
\<close>

record 'cfg OSSService =
  ossutilPath :: string
  defaultOssutilPath :: string
  transferSeq :: nat
  transferCtxSet :: bool
  transferLimiter :: "transferLimiter option"
  events :: "TransferUpdate list"
  launched :: "('cfg \<times> TransferUpdate) list"

definition emitTransferUpdate :: "TransferUpdate \<Rightarrow> 'cfg OSSService \<Rightarrow> 'cfg OSSService" where
  "emitTransferUpdate u s = (if \<not> transferCtxSet s then s else s\<lparr>events := events s @ [u]\<rparr>)"

section \<open>ProgressAggregator: the \<open>emit\<close> closure and the segment loop\<close>

text \<open>
  A reading of \<open>time.Now()\<close>: the wall clock and the monotonic clock, in nanoseconds.
  \<open>UnixMilli\<close> reads the wall clock, \<open>Sub\<close> the monotonic one and saturates at the bounds
  of \<open>int64\<close>. The zero \<open>time.Time\<close> of an unset \<open>lastEmit\<close> is \<open>None\<close>.
\<close>

record gotime =
  wall_ns :: int
  mono_ns :: int

definition UnixMilli :: "gotime \<Rightarrow> int" where
  "UnixMilli t = wall_ns t div 1000000"

definition Sub :: "gotime \<Rightarrow> gotime \<Rightarrow> int" where
  "Sub t u = max (- 9223372036854775808) (min 9223372036854775807 (mono_ns t - mono_ns u))"

definition emitInterval :: int where
  "emitInterval = 250 * 1000000"

text \<open>
  The variables of one run: the record behind the pointer \<open>update\<close>, the locals
  \<open>doneBytes\<close>, \<open>speedBps\<close>, \<open>lastEmit\<close> and \<open>outputTail\<close>, the service \<open>s\<close>, and the snapshots
  passed to \<open>s.emitTransferUpdate\<close>, in order (the service keeps them as events only when
  its context is set).
\<close>

record 'cfg run_state =
  upd :: TransferUpdate
  cur_done :: int
  cur_speed :: float64
  lastEmit :: "gotime option"
  outputTail :: ringBuffer
  snapshots :: "TransferUpdate list"
  srv :: "'cfg OSSService"

definition eta_of :: "int \<Rightarrow> int \<Rightarrow> float64 \<Rightarrow> int" where
  "eta_of tot dn spd =
     (if tot > 0 \<and> fpos spd \<and> dn \<ge> 0 \<and> dn \<le> tot
      then int64_of_float64 (fdiv (float64_of_int64 (tot - dn)) spd)
      else 0)"

definition emit :: "bool \<Rightarrow> gotime \<Rightarrow> 'cfg run_state \<Rightarrow> 'cfg run_state" where
  "emit force now st =
     (if \<not> force \<and> (case lastEmit st of None \<Rightarrow> False | Some l \<Rightarrow> Sub now l < emitInterval)
      then st
      else
        let u = (upd st)\<lparr>DoneBytes := cur_done st,
                          SpeedBytesPerSec := cur_speed st,
                          EtaSeconds := eta_of (TotalBytes (upd st)) (cur_done st) (cur_speed st),
                          UpdatedAtMs := UnixMilli now\<rparr>
        in st\<lparr>lastEmit := Some now, upd := u, snapshots := snapshots st @ [u],
              srv := emitTransferUpdate u (srv st)\<rparr>)"

text \<open>
  One turn of \<open>for seg := range segments\<close>; \<open>now\<close> is what \<open>time.Now()\<close> returns if this
  turn calls \<open>emit\<close>. \<open>None\<close> is a panic (of \<open>AppendLine\<close>). \<open>nextDone\<close> is the new value of the
  local \<open>doneBytes\<close>.
\<close>

definition nextDone :: "parsedProgress \<Rightarrow> int \<Rightarrow> int \<Rightarrow> int" where
  "nextDone p tot cur =
     (if hasDone p then doneBytes p
      else if hasPercent p \<and> tot > 0 then
        int64_of_float64 (fmul (float64_of_int64 tot) (fdiv (percent p) (Fin 100)))
      else cur)"

definition processSegment :: "string \<times> gotime \<Rightarrow> 'cfg run_state \<Rightarrow> 'cfg run_state option" where
  "processSegment sn st =
     (let seg = stripANSI (fst sn);
          p = parseProgressSegment seg;
          st1 = st\<lparr>cur_done := nextDone p (TotalBytes (upd st)) (cur_done st)\<rparr>;
          st2 = st1\<lparr>cur_speed := (if hasSpeed p then speedBps p else cur_speed st1)\<rparr>
      in if hasDone p \<or> hasSpeed p \<or> hasPercent p then Some (emit False (snd sn) st2)
         else (case AppendLine (TrimSpace seg) (outputTail st2) of
                 None \<Rightarrow> None
               | Some b \<Rightarrow> Some (st2\<lparr>outputTail := b\<rparr>)))"

fun processSegments :: "(string \<times> gotime) list \<Rightarrow> 'cfg run_state \<Rightarrow> 'cfg run_state option" where
  "processSegments [] st = Some st"
| "processSegments (sn # sns) st =
     (case processSegment sn st of None \<Rightarrow> None | Some st' \<Rightarrow> processSegments sns st')"

definition ringBuffer_String :: "ringBuffer \<Rightarrow> string" where
  "ringBuffer_String b = TrimSpace (rb_data b)"

section \<open>ProcessSupervisor: \<open>runOssutilWithProgress\<close>\<close>

text \<open>
  The world outside is given as data: \<open>startCmd binary args\<close> is the error of starting
  that binary (\<open>None\<close>: the process runs), \<open>segs\<close> the segments received from the channel
  that merges the two output streams, each with the clock reading of that moment,
  \<open>waitErr\<close> the result of \<open>cmd.Wait()\<close> and \<open>fin\<close> the clock reading of the last \<open>emit\<close>.
  \<open>binaries\<close> lists the binaries \<open>startCmd\<close> was called with, in order. \<open>fallbackPath\<close>
  and \<open>primaryPath\<close> are the locals \<open>fallback\<close> and \<open>primary\<close>.
\<close>

record 'cfg start_result =
  binaries :: "string list"
  start_err :: "go_error option"
  service :: "'cfg OSSService"

definition fallbackPath :: "'cfg OSSService \<Rightarrow> string" where
  "fallbackPath s = TrimSpace (defaultOssutilPath s)"

definition primaryPath :: "'cfg OSSService \<Rightarrow> string" where
  "primaryPath s =
     (let primary0 = TrimSpace (ossutilPath s);
          primary1 = (if primary0 = [] then fallbackPath s else primary0)
      in if primary1 = [] then ''ossutil'' else primary1)"

definition startProcess ::
  "(string \<Rightarrow> string list \<Rightarrow> go_error option) \<Rightarrow> string list \<Rightarrow> 'cfg OSSService
    \<Rightarrow> 'cfg start_result"
where
  "startProcess startCmd args s =
     (let fallback = fallbackPath s;
          primary = primaryPath s;
          err = startCmd primary args
      in if err \<noteq> None \<and> ossutilStartFailed err \<and> fallback \<noteq> [] \<and> fallback \<noteq> primary then
           (let err' = startCmd fallback args
            in \<lparr>binaries = [primary, fallback], start_err = err',
                service = (if err' = None then s\<lparr>ossutilPath := fallback\<rparr> else s)\<rparr>)
         else \<lparr>binaries = [primary], start_err = err, service = s\<rparr>)"

record 'cfg run_result =
  run_err :: "go_error option"
  run_update :: "TransferUpdate option"
  run_service :: "'cfg OSSService"
  run_snapshots :: "TransferUpdate list"
  run_binaries :: "string list"

text \<open>\<open>None\<close> is a panic in the segment loop.\<close>

definition runOssutilWithProgress ::
  "(string \<Rightarrow> string list \<Rightarrow> go_error option) \<Rightarrow> (string \<times> gotime) list \<Rightarrow> go_error option
    \<Rightarrow> gotime \<Rightarrow> string list \<Rightarrow> TransferUpdate option \<Rightarrow> 'cfg OSSService
    \<Rightarrow> 'cfg run_result option"
where
  "runOssutilWithProgress startCmd segs waitErr fin args update s =
     (case update of
        None \<Rightarrow>
          Some \<lparr>run_err = Some (errors_New ''internal error: missing transfer update''),
                run_update = None, run_service = s, run_snapshots = [], run_binaries = []\<rparr>
      | Some u \<Rightarrow>
          let sr = startProcess startCmd args s
          in (case start_err sr of
                Some e \<Rightarrow>
                  Some \<lparr>run_err = Some (wrap_prefix ''failed to start ossutil: '' e),
                        run_update = Some u, run_service = service sr, run_snapshots = [],
                        run_binaries = binaries sr\<rparr>
              | None \<Rightarrow>
                  (case processSegments segs
                          \<lparr>upd = u, cur_done = DoneBytes u, cur_speed = SpeedBytesPerSec u,
                           lastEmit = None, outputTail = newRingBuffer (16 * 1024),
                           snapshots = [], srv = service sr\<rparr> of
                     None \<Rightarrow> None
                   | Some st \<Rightarrow>
                       (case waitErr of
                          Some e \<Rightarrow>
                            let tail = ringBuffer_String (outputTail st)
                            in Some \<lparr>run_err = Some (if tail \<noteq> [] then wrap_tail e tail else e),
                                     run_update = Some (upd st), run_service = srv st,
                                     run_snapshots = snapshots st, run_binaries = binaries sr\<rparr>
                        | None \<Rightarrow>
                            let st' = emit True fin st
                            in Some \<lparr>run_err = None, run_update = Some (upd st'),
                                     run_service = srv st', run_snapshots = snapshots st',
                                     run_binaries = binaries sr\<rparr>))))"

section \<open>TransferDispatcher: \<open>EnqueueUpload\<close> and \<open>EnqueueDownload\<close>\<close>

text \<open>\<open>%d\<close> of \<open>fmt.Sprintf\<close>.\<close>

function showDec :: "int \<Rightarrow> string" where
  "showDec n = (if n < 10 then [char_of (48 + n)] else showDec (n div 10) @ [char_of (48 + n mod 10)])"
  by pat_completeness auto
termination
  by (relation "measure nat") auto

declare showDec.simps [simp del]

definition showInt :: "int \<Rightarrow> string" where
  "showInt i = (if i < 0 then CHR ''-'' # showDec (- i) else showDec i)"

text \<open>
  \<open>path.Base\<close>, and \<open>filepath.Base\<close> where the separator is the slash: the last element
  of the path, after removing trailing slashes; \<open>.\<close> for the empty path and \<open>/\<close> for a path
  of slashes only.
\<close>

definition path_Base :: "string \<Rightarrow> string" where
  "path_Base p =
     (if p = [] then ''.''
      else
        let q = rev (dropWhile (\<lambda>c. c = CHR ''/'') (rev p));
            r = rev (takeWhile (\<lambda>c. c \<noteq> CHR ''/'') (rev q))
        in if r = [] then ''/'' else r)"

text \<open>What \<open>os.Stat\<close> tells about a path: an error, or whether it is a directory and its size.\<close>

record FileInfo =
  fi_IsDir :: bool
  fi_Size :: int

text \<open>
  \<open>stat\<close> is the file system as \<open>os.Stat\<close> sees it; \<open>now1\<close> and \<open>now2\<close> are the two readings
  of \<open>time.Now().UnixMilli()\<close>. The result is the pair returned, \<open>(id, err)\<close>, and the
  service afterwards. \<open>atomic.AddUint64\<close> wraps at \<open>2^64 = 18446744073709551616\<close>.
\<close>

definition nextSeq :: "nat \<Rightarrow> nat" where
  "nextSeq n = nat ((int n + 1) mod 18446744073709551616)"

definition newUpdate ::
  "string \<Rightarrow> TransferType \<Rightarrow> string \<Rightarrow> string \<Rightarrow> string \<Rightarrow> string \<Rightarrow> int \<Rightarrow> int \<Rightarrow> TransferUpdate"
where
  "newUpdate i ty nm bucket key localPath tot now =
     \<lparr>ID = i, Type = ty, Status = TransferStatusQueued, Name = nm, Bucket = bucket, Key = key,
      LocalPath = localPath, TotalBytes = tot, DoneBytes = 0, SpeedBytesPerSec = Fin 0,
      EtaSeconds = 0, Message = [], StartedAtMs = 0, UpdatedAtMs = now, FinishedAtMs = 0\<rparr>"

definition enqueue ::
  "int \<Rightarrow> 'cfg \<Rightarrow> (string \<Rightarrow> TransferUpdate) \<Rightarrow> 'cfg OSSService
    \<Rightarrow> (string \<times> go_error option) \<times> 'cfg OSSService"
where
  "enqueue now1 config mk s =
     (let sq = nextSeq (transferSeq s);
          i = ''tr-'' @ showInt now1 @ ''-'' @ showInt (int sq);
          update = mk i;
          s1 = emitTransferUpdate update (s\<lparr>transferSeq := sq\<rparr>)
      in ((i, None), s1\<lparr>launched := launched s1 @ [(config, update)]\<rparr>))"

definition EnqueueUpload ::
  "(string \<Rightarrow> go_error + FileInfo) \<Rightarrow> int \<Rightarrow> int \<Rightarrow> 'cfg \<Rightarrow> string \<Rightarrow> string \<Rightarrow> string
    \<Rightarrow> 'cfg OSSService \<Rightarrow> (string \<times> go_error option) \<times> 'cfg OSSService"
where
  "EnqueueUpload stat now1 now2 config bucket pfx localPath0 s =
     (let localPath = TrimSpace localPath0
      in if localPath = [] then (([], Some (errors_New ''local path is empty'')), s)
         else if TrimSpace bucket = [] then (([], Some (errors_New ''bucket is empty'')), s)
         else
           (case stat localPath of
              Inl err \<Rightarrow> (([], Some (wrap_prefix ''stat local file failed: '' err)), s)
            | Inr fi \<Rightarrow>
                if fi_IsDir fi then
                  (([], Some (errors_New ''upload currently supports files only'')), s)
                else
                  let fileName = path_Base localPath;
                      key0 = TrimPrefix pfx ''/'';
                      key1 = (if key0 \<noteq> [] \<and> \<not> HasSuffix key0 ''/'' then key0 @ ''/'' else key0);
                      key = key1 @ fileName
                  in enqueue now1 config
                       (\<lambda>i. newUpdate i TransferTypeUpload fileName bucket key localPath
                               (fi_Size fi) now2) s))"

definition EnqueueDownload ::
  "int \<Rightarrow> int \<Rightarrow> 'cfg \<Rightarrow> string \<Rightarrow> string \<Rightarrow> string \<Rightarrow> int
    \<Rightarrow> 'cfg OSSService \<Rightarrow> (string \<times> go_error option) \<times> 'cfg OSSService"
where
  "EnqueueDownload now1 now2 config bucket object0 localPath0 totalBytes s =
     (let localPath = TrimSpace localPath0;
          object = TrimPrefix (TrimSpace object0) ''/''
      in if localPath = [] then (([], Some (errors_New ''local path is empty'')), s)
         else if TrimSpace bucket = [] then (([], Some (errors_New ''bucket is empty'')), s)
         else if object = [] then (([], Some (errors_New ''object key is empty'')), s)
         else
           let name0 = path_Base object;
               nm = (if name0 = ''.'' \<or> name0 = ''/'' \<or> name0 = [] then object else name0)
           in enqueue now1 config
                (\<lambda>i. newUpdate i TransferTypeDownload nm bucket object localPath totalBytes now2) s)"

text \<open>\<open>rb_ok b\<close>: the capacity is positive and the data fits, as in every buffer reached from \<open>newRingBuffer\<close>.\<close>

definition rb_ok :: "ringBuffer \<Rightarrow> bool" where
  "rb_ok b = (1 \<le> rb_cap b \<and> int (length (rb_data b)) \<le> rb_cap b)"

text \<open>
  \<open>reports_monotone segs tot cur\<close>: along the segments, every new value of \<open>doneBytes\<close> (the
  count or percentage the tool reports on a line, or the old value) is at least the
  value before it and, when \<open>tot > 0\<close>, at most \<open>tot\<close>.
\<close>

fun reports_monotone :: "(string \<times> gotime) list \<Rightarrow> int \<Rightarrow> int \<Rightarrow> bool" where
  "reports_monotone [] tot cur = True"
| "reports_monotone (sn # sns) tot cur =
     (let v = nextDone (parseProgressSegment (stripANSI (fst sn))) tot cur
      in cur \<le> v \<and> (tot > 0 \<longrightarrow> v \<le> tot) \<and> reports_monotone sns tot v)"

text \<open>
  Data for the examples: a queued download of 1000 bytes, a service whose binary starts,
  and clock readings at a given number of milliseconds.
\<close>

definition job1000 :: TransferUpdate where
  "job1000 = \<lparr>ID = ''tr-1-1'', Type = TransferTypeDownload, Status = TransferStatusInProgress,
               Name = ''f.bin'', Bucket = ''b'', Key = ''f.bin'', LocalPath = ''/tmp/f.bin'',
               TotalBytes = 1000, DoneBytes = 0, SpeedBytesPerSec = Fin 0, EtaSeconds = 0,
               Message = [], StartedAtMs = 1, UpdatedAtMs = 1, FinishedAtMs = 0\<rparr>"

definition svc :: "unit OSSService" where
  "svc = \<lparr>ossutilPath = ''ossutil'', defaultOssutilPath = ''ossutil'', transferSeq = 1,
           transferCtxSet = True, transferLimiter = None, events = [], launched = []\<rparr>"

definition at_ms :: "int \<Rightarrow> gotime" where
  "at_ms ms = \<lparr>wall_ns = ms * 1000000, mono_ns = ms * 1000000\<rparr>"

definition starts :: "string \<Rightarrow> string list \<Rightarrow> go_error option" where
  "starts binary args = None"

text \<open>
  A service whose configured binary is missing while the discovered one starts, and a
  file system with one regular file of 10 bytes and one directory.
\<close>

definition enoent :: go_error where
  "enoent = GoError [ErrOther, ErrNotExist] ''fork/exec /opt/missing/ossutil: no such file or directory''"

definition exit1 :: go_error where
  "exit1 = GoError [ExitError] ''exit status 1''"

definition svc_missing :: "unit OSSService" where
  "svc_missing = \<lparr>ossutilPath = '' /opt/missing/ossutil'', defaultOssutilPath = ''/usr/local/bin/ossutil'',
                   transferSeq = 1, transferCtxSet = True, transferLimiter = None,
                   events = [], launched = []\<rparr>"

definition only_fallback_starts :: "string \<Rightarrow> string list \<Rightarrow> go_error option" where
  "only_fallback_starts binary args = (if binary = ''/usr/local/bin/ossutil'' then None else Some enoent)"

definition disk :: "string \<Rightarrow> go_error + FileInfo" where
  "disk p =
     (if p = ''/tmp/f.bin'' then Inr \<lparr>fi_IsDir = False, fi_Size = 10\<rparr>
      else if p = ''/tmp/dir'' then Inr \<lparr>fi_IsDir = True, fi_Size = 4096\<rparr>
      else Inl (GoError [ErrNotExist] (''stat '' @ p @ '': no such file or directory'')))"

text \<open>
  Two runs of a job of 1000 bytes: one in which the tool reports 200 and then 800 bytes
  at 100 bytes per second, and one in which it reports 500, then 2000, then 100 bytes.
  The lines are 300 ms apart, so none is throttled.
\<close>

definition segs_200_800 :: "(string \<times> gotime) list" where
  "segs_200_800 = [(''OK size: 200 Speed: 100B/s'', at_ms 1000), (''OK size: 800'', at_ms 1300)]"

definition segs_500_2000_100 :: "(string \<times> gotime) list" where
  "segs_500_2000_100 =
     [(''OK size: 500'', at_ms 1000), (''OK size: 2,000'', at_ms 1300), (''OK size: 100'', at_ms 1600)]"

text \<open>
  The invariant of the segment loop when the reports are monotone: the snapshots carry
  non-decreasing \<open>DoneBytes\<close>, between the initial value \<open>lo\<close> and the current \<open>doneBytes\<close>,
  which is at most the total when that is positive.
\<close>

definition done_inv :: "int \<Rightarrow> 'cfg run_state \<Rightarrow> bool" where
  "done_inv lo st =
     (sorted (map DoneBytes (snapshots st))
      \<and> (\<forall>x \<in> set (snapshots st).
            lo \<le> DoneBytes x \<and> DoneBytes x \<le> cur_done st
            \<and> TotalBytes x = TotalBytes (upd st))
      \<and> lo \<le> DoneBytes (upd st) \<and> DoneBytes (upd st) \<le> cur_done st
      \<and> (TotalBytes (upd st) > 0 \<longrightarrow> cur_done st \<le> TotalBytes (upd st)))"

section \<open>The job: \<open>runTransfer\<close>\<close>

text \<open>
  The declaration of \<open>OSSConfig\<close> is not among the sources; the record has the four fields
  the code reads, all strings.
\<close>

record OSSConfig =
  Region :: string
  Endpoint :: string
  AccessKeyID :: string
  AccessKeySecret :: string

definition TrimSuffix :: "string \<Rightarrow> string \<Rightarrow> string" where
  "TrimSuffix s suf = (if HasSuffix s suf then take (length s - length suf) s else s)"

fun Contains :: "string \<Rightarrow> string \<Rightarrow> bool" where
  "Contains [] sub = (sub = [])"
| "Contains (c # s) sub = (HasPrefix (c # s) sub \<or> Contains s sub)"

definition normalizeRegion :: "string \<Rightarrow> string" where
  "normalizeRegion region = TrimPrefix (TrimSpace region) ''oss-''"

text \<open>
  \<open>urlHost e\<close> stands for \<open>url.Parse(e)\<close>: \<open>None\<close> when it fails, the \<open>Host\<close> of the URL
  otherwise. \<open>strings.SplitN(e, sep, 2)[0]\<close> is the part of \<open>e\<close> before the first \<open>sep\<close>.
\<close>

definition normalizeEndpoint :: "(string \<Rightarrow> string option) \<Rightarrow> string \<Rightarrow> string" where
  "normalizeEndpoint urlHost endpoint0 =
     (let endpoint = TrimSpace endpoint0
      in if endpoint = [] then []
         else
           let e1 = (if Contains endpoint ''://'' then
                       (case urlHost endpoint of
                          None \<Rightarrow> endpoint
                        | Some h \<Rightarrow> if h \<noteq> [] then h else endpoint)
                     else endpoint);
               e2 = takeWhile (\<lambda>c. c \<noteq> CHR ''?'') e1;
               e3 = takeWhile (\<lambda>c. c \<noteq> CHR ''#'') e2;
               e4 = takeWhile (\<lambda>c. c \<noteq> CHR ''/'') e3
           in TrimSuffix e4 ''.'')"

definition transferArgs :: "OSSConfig \<Rightarrow> TransferUpdate \<Rightarrow> string \<Rightarrow> string \<Rightarrow> string list" where
  "transferArgs config u region endpoint =
     (let cloudURL = ''oss://'' @ Bucket u @ ''/'' @ Key u;
          opts = [''--access-key-id'', AccessKeyID config,
                  ''--access-key-secret'', AccessKeySecret config,
                  ''--region'', region, ''-f''];
          args = (if Type u = TransferTypeDownload then [''cp'', cloudURL, LocalPath u] @ opts
                  else [''cp'', LocalPath u, cloudURL] @ opts)
      in if endpoint \<noteq> [] then args @ [''--endpoint'', endpoint] else args)"

text \<open>
  One job, from \<open>limiter.Acquire()\<close> to the deferred \<open>Release\<close>, taken as one step of the
  service: \<open>JobWaiting\<close> when \<open>Acquire\<close> cannot return in the given state of the limiter,
  \<open>JobPanicked\<close> when the segment loop panics. \<open>startedMs\<close> and \<open>finishedMs\<close> are the two
  readings of \<open>time.Now().UnixMilli()\<close>; the other inputs are those of
  \<open>runOssutilWithProgress\<close>. \<open>job_snapshots\<close> lists every update passed to
  \<open>s.emitTransferUpdate\<close>, in order.
\<close>

datatype job_outcome = JobWaiting | JobPanicked | JobReturned

record 'cfg job_result =
  job_outcome :: job_outcome
  job_service :: "'cfg OSSService"
  job_snapshots :: "TransferUpdate list"

definition releaseLimiter :: "'cfg OSSService \<Rightarrow> 'cfg OSSService" where
  "releaseLimiter s = s\<lparr>transferLimiter := map_option Release (transferLimiter s)\<rparr>"

definition runTransfer ::
  "(string \<Rightarrow> string option) \<Rightarrow> (string \<Rightarrow> string list \<Rightarrow> go_error option)
    \<Rightarrow> (string \<times> gotime) list \<Rightarrow> go_error option \<Rightarrow> gotime \<Rightarrow> int \<Rightarrow> int
    \<Rightarrow> OSSConfig \<Rightarrow> TransferUpdate \<Rightarrow> 'cfg OSSService \<Rightarrow> 'cfg job_result"
where
  "runTransfer urlHost startCmd segs waitErr fin startedMs finishedMs config update0 s0 =
     (let limiter = (case transferLimiter s0 of None \<Rightarrow> newTransferLimiter 1 | Some l \<Rightarrow> l)
      in case Acquire limiter of
           None \<Rightarrow>
             \<lparr>job_outcome = JobWaiting, job_service = s0\<lparr>transferLimiter := Some limiter\<rparr>,
              job_snapshots = []\<rparr>
         | Some held \<Rightarrow>
             let u1 = update0\<lparr>Status := TransferStatusInProgress, StartedAtMs := startedMs,
                              UpdatedAtMs := startedMs\<rparr>;
                 s1 = emitTransferUpdate u1 (s0\<lparr>transferLimiter := Some held\<rparr>);
                 region = normalizeRegion (Region config);
                 endpoint = normalizeEndpoint urlHost (Endpoint config)
             in if Type u1 \<noteq> TransferTypeDownload \<and> Type u1 \<noteq> TransferTypeUpload then
                  (let u2 = u1\<lparr>Status := TransferStatusError, Message := ''unknown transfer type'',
                                FinishedAtMs := finishedMs, UpdatedAtMs := finishedMs\<rparr>
                   in \<lparr>job_outcome = JobReturned,
                       job_service = releaseLimiter (emitTransferUpdate u2 s1),
                       job_snapshots = [u1, u2]\<rparr>)
                else
                  (case runOssutilWithProgress startCmd segs waitErr fin
                          (transferArgs config u1 region endpoint) (Some u1) s1 of
                     None \<Rightarrow>
                       \<lparr>job_outcome = JobPanicked, job_service = releaseLimiter s1,
                        job_snapshots = [u1]\<rparr>
                   | Some r \<Rightarrow>
                       let u3 = (case run_update r of None \<Rightarrow> u1 | Some u \<Rightarrow> u);
                           u4 = u3\<lparr>FinishedAtMs := finishedMs, UpdatedAtMs := finishedMs\<rparr>;
                           u5 = (case run_err r of
                                   Some e \<Rightarrow> u4\<lparr>Status := TransferStatusError, Message := err_text e\<rparr>
                                 | None \<Rightarrow>
                                     u4\<lparr>Status := TransferStatusSuccess,
                                        DoneBytes := (if TotalBytes u4 > 0 then TotalBytes u4
                                                      else DoneBytes u4)\<rparr>)
                       in \<lparr>job_outcome = JobReturned,
                           job_service = releaseLimiter (emitTransferUpdate u5 (run_service r)),
                           job_snapshots = [u1] @ run_snapshots r @ [u5]\<rparr>))"

text \<open>
  \<open>counts_monotone segs tot cur\<close>: every line of \<open>segs\<close> that carries an absolute byte count
  carries one that is at least the count before it (\<open>cur\<close> at the start) and, when
  \<open>tot > 0\<close>, at most \<open>tot\<close>; and no other line carries a percentage while \<open>tot > 0\<close>.
\<close>

fun counts_monotone :: "(string \<times> gotime) list \<Rightarrow> int \<Rightarrow> int \<Rightarrow> bool" where
  "counts_monotone [] tot cur = True"
| "counts_monotone (sn # sns) tot cur =
     (let p = parseProgressSegment (stripANSI (fst sn))
      in if hasDone p then
           cur \<le> doneBytes p \<and> (tot > 0 \<longrightarrow> doneBytes p \<le> tot)
           \<and> counts_monotone sns tot (doneBytes p)
         else \<not> (hasPercent p \<and> tot > 0) \<and> counts_monotone sns tot cur)"

text \<open>
  More data for the examples: a job of 100 bytes whose tool reports 29 bytes and then
  29 percent; a tool that reports a speed of \<open>10^-19\<close> bytes per second; the 1000-byte
  download as \<open>EnqueueDownload\<close> queues it, with its configuration; a \<open>url.Parse\<close> that is
  never asked.
\<close>

definition job100 :: TransferUpdate where
  "job100 = job1000\<lparr>TotalBytes := 100\<rparr>"

definition segs_29_29pct :: "(string \<times> gotime) list" where
  "segs_29_29pct = [(''OK size: 29'', at_ms 1000), (''Progress: 29%'', at_ms 1300)]"

definition segs_slow :: "(string \<times> gotime) list" where
  "segs_slow = [(''Speed: 0.0000000000000000001B/s'', at_ms 1000)]"

definition slow_speed :: float64 where
  "slow_speed = speedBps (parseProgressSegment (stripANSI ''Speed: 0.0000000000000000001B/s''))"

definition queued1000 :: TransferUpdate where
  "queued1000 = newUpdate ''tr-1-1'' TransferTypeDownload ''f.bin'' ''b'' ''f.bin'' ''/tmp/f.bin'' 1000 1"

definition cfg1 :: OSSConfig where
  "cfg1 = \<lparr>Region = ''oss-cn-hangzhou'', Endpoint = [], AccessKeyID = ''id'', AccessKeySecret = ''secret''\<rparr>"

definition nohost :: "string \<Rightarrow> string option" where
  "nohost e = None"

section \<open>Limiter: proofs\<close>

lemma run_calls_active_nonneg:
  "0 \<le> active l0 \<Longrightarrow> run_calls l0 cs = Some l \<Longrightarrow> 0 \<le> active l"
proof (induction l0 cs rule: run_calls.induct)
  case (2 l cs)
  then show ?case by (auto simp: Acquire_def split: if_splits)
qed (auto simp: Release_def SetMax_def)





section \<open>Ring buffer: proofs\<close>

lemma terminated_nonempty: "line \<noteq> [] \<Longrightarrow> terminated line \<noteq> []"
  by (auto simp: terminated_def)

lemma last_bytes_length: "length (last_bytes n s) = min n (length s)"
  by (simp add: last_bytes_def)

lemma last_bytes_suffix: "suffix (last_bytes n s) s"
  by (simp add: last_bytes_def suffix_drop)

lemma last_bytes_append_long:
  "n \<le> length r \<Longrightarrow> last_bytes n (s @ r) = last_bytes n r"
  by (simp add: last_bytes_def)

lemma last_bytes_append_short:
  "length r \<le> n \<Longrightarrow> last_bytes n (s @ r) = last_bytes (n - length r) s @ r"
  by (simp add: last_bytes_def)

lemma last_bytes_idem:
  "m \<le> n \<Longrightarrow> last_bytes m (last_bytes n s) = last_bytes m s"
proof -
  assume "m \<le> n"
  then have "length s - (length s - n + m) + (length s - n) = length s - m"
    by arith
  then show ?thesis
    by (simp add: last_bytes_def)
qed

lemma last_bytes_all: "length s \<le> n \<Longrightarrow> last_bytes n s = s"
  by (simp add: last_bytes_def)

lemma AppendLine_step:
  assumes c: "1 \<le> rb_cap b" and d: "rb_data b = last_bytes (nat (rb_cap b)) S"
  shows "AppendLine line b =
           Some (b\<lparr>rb_data := last_bytes (nat (rb_cap b)) (S @ terminated line)\<rparr>)"
proof (cases "line = []")
  case True
  then show ?thesis
    using d by (simp add: AppendLine_def terminated_def)
next
  case False
  define raw where "raw = terminated line"
  define n where "n = nat (rb_cap b)"
  have raw: "raw = (if HasSuffix line [LF] then line else line @ [LF])" and ne: "raw \<noteq> []"
    using False by (auto simp: raw_def terminated_def)
  have n: "int n = rb_cap b" "1 \<le> n"
    using c by (simp_all add: n_def)
  have dn: "rb_data b = last_bytes n S"
    using d by (simp add: n_def)
  consider (long) "n \<le> length raw"
    | (evict) "length raw < n" "n < length (rb_data b) + length raw"
    | (fits) "length raw < n" "length (rb_data b) + length raw \<le> n"
    by linarith
  then have "AppendLine line b = Some (b\<lparr>rb_data := last_bytes n (S @ raw)\<rparr>)"
  proof cases
    case long
    have "slice_from raw (int (length raw) - rb_cap b) = Some (last_bytes n raw)"
      using long n by (simp add: slice_from_def last_bytes_def nat_diff_distrib' flip: n(1))
    moreover have "int (length raw) \<ge> rb_cap b"
      using long n by linarith
    ultimately show ?thesis
      using False long by (simp add: AppendLine_def Let_def last_bytes_append_long flip: raw)
  next
    case evict
    have off: "nat (int (length (rb_data b)) + int (length raw) - rb_cap b)
                 = length (rb_data b) - (n - length raw)"
      using evict n by linarith
    have "slice_from (rb_data b) (int (length (rb_data b)) + int (length raw) - rb_cap b)
            = Some (last_bytes (n - length raw) (rb_data b))"
      using evict n unfolding slice_from_def last_bytes_def off by auto
    moreover have "last_bytes (n - length raw) (rb_data b) = last_bytes (n - length raw) S"
      unfolding dn by (rule last_bytes_idem) simp
    moreover have "\<not> int (length raw) \<ge> rb_cap b"
      "int (length (rb_data b)) + int (length raw) > rb_cap b"
      using evict n by linarith+
    ultimately show ?thesis
      using False evict by (simp add: AppendLine_def Let_def last_bytes_append_short flip: raw)
  next
    case fits
    have "length (rb_data b) < n"
      using fits ne by (cases raw) auto
    then have "length S < n"
      unfolding dn by (simp add: last_bytes_length)
    then have "rb_data b = S" "last_bytes n (S @ raw) = S @ raw"
      using fits unfolding dn by (simp_all add: last_bytes_all)
    moreover have "\<not> int (length raw) \<ge> rb_cap b"
      "\<not> int (length (rb_data b)) + int (length raw) > rb_cap b"
      using fits n by linarith+
    ultimately show ?thesis
      using False by (simp add: AppendLine_def Let_def flip: raw)
  qed
  then show ?thesis
    by (simp add: n_def raw_def)
qed

lemma AppendLines_last_bytes:
  "1 \<le> rb_cap b \<Longrightarrow> rb_data b = last_bytes (nat (rb_cap b)) S \<Longrightarrow>
   AppendLines b ls =
     Some (b\<lparr>rb_data := last_bytes (nat (rb_cap b)) (S @ appended_stream ls)\<rparr>)"
proof (induction ls arbitrary: b S)
  case Nil
  then show ?case by (simp add: appended_stream_def)
next
  case (Cons line ls)
  let ?b = "b\<lparr>rb_data := last_bytes (nat (rb_cap b)) (S @ terminated line)\<rparr>"
  have "AppendLines ?b ls =
          Some (?b\<lparr>rb_data := last_bytes (nat (rb_cap ?b)) ((S @ terminated line) @ appended_stream ls)\<rparr>)"
    by (rule Cons.IH) (use Cons.prems in simp_all)
  then show ?case
    using AppendLine_step [OF Cons.prems, of line] by (simp add: appended_stream_def)
qed

section \<open>Claims about the limiter\<close>




text \<open>
  Claim C9: \<open>Release\<close> never makes \<open>active\<close> negative. For every call sequence on a fresh
  limiter, also one whose \<open>Release\<close> calls are not paired with an \<open>Acquire\<close>, \<open>active \<ge> 0\<close>;
  one \<open>Release\<close> keeps \<open>active \<ge> 0\<close>, and it leaves the limiter as it is when \<open>active\<close> is
  not positive.
\<close>

theorem Release_never_negative:
  "(run_calls (newTransferLimiter m) cs = Some l \<longrightarrow> 0 \<le> active l)
   \<and> (0 \<le> active l0 \<longrightarrow> 0 \<le> active (Release l0))
   \<and> (active l0 \<le> 0 \<longrightarrow> Release l0 = l0)"
proof -
  have "run_calls (newTransferLimiter m) cs = Some l \<Longrightarrow> 0 \<le> active l"
    by (rule run_calls_active_nonneg [of "newTransferLimiter m" cs l])
       (simp_all add: newTransferLimiter_def)
  then show ?thesis
    by (auto simp: Release_def)
qed

theorem Release_never_negative_witness:
  "run_calls (newTransferLimiter 1) [CallRelease, CallAcquire, CallRelease, CallRelease]
     = Some \<lparr>active = 0, max_lim = 1\<rparr>
   \<and> 0 \<le> active \<lparr>active = 0, max_lim = 1\<rparr>
   \<and> 0 \<le> active (Release \<lparr>active = 0, max_lim = 1\<rparr>)
   \<and> Release \<lparr>active = 0, max_lim = 1\<rparr> = \<lparr>active = 0, max_lim = 1\<rparr>"
  using Release_never_negative [of 1 "[CallRelease, CallAcquire, CallRelease, CallRelease]"
      "\<lparr>active = 0, max_lim = 1\<rparr>" "\<lparr>active = 0, max_lim = 1\<rparr>"]
  by (simp add: newTransferLimiter_def Acquire_def Release_def)

section \<open>Claims about the ring buffer\<close>

text \<open>
  Claim C6: for every sequence of \<open>AppendLine\<close> calls on a buffer made by \<open>newRingBuffer\<close>,
  no call panics, the retained bytes never exceed the capacity and are a suffix of the
  concatenation of everything appended so far, each line newline-terminated (an empty
  line appends nothing); they are in fact the last \<open>cap\<close> bytes of that concatenation. A
  further line that alone meets or exceeds the capacity leaves the last \<open>cap\<close> bytes of that
  line; any other line is appended after dropping from the front exactly the bytes that
  exceed the capacity.
\<close>

theorem ringBuffer_bounded_suffix:
  "\<exists>b. AppendLines (newRingBuffer capacity) ls = Some b
     \<and> rb_cap b = max 1 capacity
     \<and> int (length (rb_data b)) \<le> rb_cap b
     \<and> suffix (rb_data b) (appended_stream ls)
     \<and> rb_data b = last_bytes (nat (rb_cap b)) (appended_stream ls)
     \<and> (\<exists>b'. AppendLine line b = Some b' \<and> rb_cap b' = rb_cap b
          \<and> rb_data b' =
               (if rb_cap b \<le> int (length (terminated line))
                then last_bytes (nat (rb_cap b)) (terminated line)
                else drop (length (rb_data b) + length (terminated line) - nat (rb_cap b))
                       (rb_data b) @ terminated line))"
proof -
  let ?ini = "newRingBuffer capacity"
  let ?n = "nat (rb_cap ?ini)"
  let ?S = "appended_stream ls"
  let ?b = "?ini\<lparr>rb_data := last_bytes ?n ?S\<rparr>"
  have c: "1 \<le> rb_cap ?ini" "rb_cap ?ini = max 1 capacity"
    by (simp_all add: newRingBuffer_def)
  have "rb_data ?ini = last_bytes ?n []"
    by (simp add: newRingBuffer_def last_bytes_def)
  from AppendLines_last_bytes [OF c(1) this, of ls]
  have run: "AppendLines ?ini ls = Some ?b"
    by simp
  have len: "int (length (rb_data ?b)) \<le> rb_cap ?b"
    using c(1) by (simp add: last_bytes_length)
  have suf: "suffix (rb_data ?b) ?S"
    by (simp add: last_bytes_suffix)
  have step: "AppendLine line ?b = Some (?b\<lparr>rb_data := last_bytes ?n (?S @ terminated line)\<rparr>)"
    using AppendLine_step [of ?b ?S line] c(1) by simp
  have shape: "last_bytes ?n (?S @ terminated line) =
      (if rb_cap ?b \<le> int (length (terminated line))
       then last_bytes ?n (terminated line)
       else drop (length (rb_data ?b) + length (terminated line) - ?n) (rb_data ?b)
              @ terminated line)"
  proof (cases "rb_cap ?b \<le> int (length (terminated line))")
    case True
    then have "?n \<le> length (terminated line)"
      by simp
    then show ?thesis
      using True by (simp add: last_bytes_append_long)
  next
    case False
    then have le: "length (terminated line) \<le> ?n"
      by simp
    have "drop (length (rb_data ?b) + length (terminated line) - ?n) (rb_data ?b)
            = last_bytes (?n - length (terminated line)) (last_bytes ?n ?S)"
      using le by (simp add: last_bytes_def) 
    also have "\<dots> = last_bytes (?n - length (terminated line)) ?S"
      by (rule last_bytes_idem) simp
    finally show ?thesis
      using False le by (simp add: last_bytes_append_short)
  qed
  show ?thesis
    apply (rule exI [of _ ?b])
    using run c(2) len suf step shape by simp
qed

theorem ringBuffer_bounded_suffix_witness:
  "AppendLines (newRingBuffer 4) [''ab'', [], ''c''] = Some \<lparr>rb_data = [CHR ''b'', LF, CHR ''c'', LF], rb_cap = 4\<rparr>
   \<and> appended_stream [''ab'', [], ''c''] = [CHR ''a'', CHR ''b'', LF, CHR ''c'', LF]
   \<and> AppendLine ''wxyz'' \<lparr>rb_data = [CHR ''b'', LF, CHR ''c'', LF], rb_cap = 4\<rparr>
       = Some \<lparr>rb_data = [CHR ''x'', CHR ''y'', CHR ''z'', LF], rb_cap = 4\<rparr>"
  using ringBuffer_bounded_suffix [of 4 "[''ab'', [], ''c'']" "''wxyz''"]
  by (simp add: newRingBuffer_def AppendLine_def slice_from_def HasSuffix_def LF_def
      appended_stream_def terminated_def Let_def)

section \<open>Line splitter: proofs\<close>

lemma cut_append:
  "cutCRLF cur (a @ b) = (case cutCRLF cur a of (ps, r) \<Rightarrow> case cutCRLF r b of (ps', r') \<Rightarrow> (ps @ ps', r'))"
  by (induction a arbitrary: cur) (auto split: prod.splits)

lemma cut_nocrlf: "nocrlf a \<Longrightarrow> cutCRLF cur a = ([], cur @ a)"
  by (induction a arbitrary: cur) (auto simp: nocrlf_def)

lemma cut_nocrlf_append: "nocrlf a \<Longrightarrow> cutCRLF cur (a @ b) = cutCRLF (cur @ a) b"
  by (simp add: cut_append cut_nocrlf split: prod.splits)

lemma cut_rest_nocrlf: "nocrlf cur \<Longrightarrow> nocrlf (snd (cutCRLF cur s))"
  by (induction cur s rule: cutCRLF.induct) (auto simp: nocrlf_def split: prod.splits)

lemma IndexAny_Cons:
  "IndexAny (c # s) chars = (if c \<in> set chars then Some 0 else map_option Suc (IndexAny s chars))"
  by (simp add: IndexAny_def Let_def)

lemma IndexAny_Nil: "IndexAny [] chars = None"
  by (simp add: IndexAny_def)

lemma IndexAny_None_nocrlf: "IndexAny s [CR, LF] = None \<Longrightarrow> nocrlf s"
  by (induction s) (auto simp: IndexAny_Cons nocrlf_def split: if_splits)

lemma IndexAny_Some_cut:
  "IndexAny s [CR, LF] = Some i \<Longrightarrow>
   cutCRLF cur s = (case cutCRLF [] (drop (i + 1) s) of (ps, r) \<Rightarrow> ((cur @ take i s) # ps, r))"
proof (induction s arbitrary: i cur)
  case Nil
  then show ?case by (simp add: IndexAny_Nil)
next
  case (Cons c s)
  show ?case
  proof (cases "c = CR \<or> c = LF")
    case True
    then have "i = 0"
      using Cons.prems by (auto simp: IndexAny_Cons)
    then show ?thesis
      using True by auto
  next
    case False
    then obtain j where j: "IndexAny s [CR, LF] = Some j" "i = Suc j"
      using Cons.prems by (auto simp: IndexAny_Cons)
    show ?thesis
      using False Cons.IH [OF j(1), of "cur @ [c]"] j(2) by simp
  qed
qed

lemma drain_cut:
  "drain pending out = (case cutCRLF [] pending of (ps, r) \<Rightarrow> (r, out @ kept ps))"
proof (induction pending out rule: drain.induct)
  case (1 pending out)
  show ?case
  proof (cases "IndexAny pending [CR, LF]")
    case None
    then show ?thesis
      using cut_nocrlf [OF IndexAny_None_nocrlf [OF None], of "[]"]
      by (simp add: drain.simps [of pending out] kept_def)
  next
    case (Some idx)
    show ?thesis
      using "1.IH" [OF Some refl refl] IndexAny_Some_cut [OF Some, of "[]"]
      by (simp add: drain.simps [of pending out] Some Let_def kept_def split: prod.splits)
  qed
qed

lemma TrimSpace_Nil: "TrimSpace [] = []"
  by (simp add: TrimSpace_def TrimLeftSpace.simps [of "[]"] TrimRightSpace.simps [of "[]"]
      spaceAtHead_def spaceAtEnd_def)

lemma kept_append: "kept (a @ b) = kept a @ kept b"
  by (simp add: kept_def)

lemma kept_single: "kept [r] = (if TrimSpace r \<noteq> [] then [TrimSpace r] else [])"
  by (simp add: kept_def)

lemma step_cut:
  assumes "nocrlf pending"
  shows "(if length chunk > 0 then drain (pending @ chunk) out else (pending, out))
           = (case cutCRLF pending chunk of (ps, r) \<Rightarrow> (r, out @ kept ps))"
proof (cases "chunk = []")
  case True
  then show ?thesis by (simp add: kept_def)
next
  case False
  then show ?thesis
    using cut_nocrlf_append [OF assms, of "[]" chunk] by (simp add: drain_cut)
qed

lemma splitOnCRLF_loop_reads:
  "nocrlf pending \<Longrightarrow>
   splitOnCRLF_loop (reads_of cs c e) pending out =
     (case cutCRLF pending (concat cs @ c) of
        (ps, r) \<Rightarrow> if e = EOF then (out @ kept (ps @ [r]), Returned None)
                   else (out @ kept ps, Returned (Some e)))"
proof (induction cs arbitrary: pending out)
  case Nil
  obtain ps r where pr: "cutCRLF pending c = (ps, r)"
    by (cases "cutCRLF pending c")
  show ?case
    using step_cut [OF Nil, of c out] pr
    by (auto simp: reads_of_def kept_append kept_single TrimSpace_Nil)
next
  case (Cons x cs)
  obtain ps r where pr: "cutCRLF pending x = (ps, r)"
    by (cases "cutCRLF pending x")
  have r: "nocrlf r"
    using cut_rest_nocrlf [OF Cons.prems, of x] pr by simp
  have "splitOnCRLF_loop (reads_of (x # cs) c e) pending out
          = splitOnCRLF_loop (reads_of cs c e) r (out @ kept ps)"
    using step_cut [OF Cons.prems, of x out] pr by (simp add: reads_of_def)
  also note Cons.IH [OF r]
  finally show ?case
    using pr by (simp add: cut_append [of pending x] kept_append split: prod.splits)
qed

lemma splitOnCRLF_loop_open:
  "nocrlf pending \<Longrightarrow>
   splitOnCRLF_loop (map (\<lambda>x. (x, None)) cs) pending out =
     (out @ kept (fst (cutCRLF pending (concat cs))), StillReading)"
proof (induction cs arbitrary: pending out)
  case Nil
  then show ?case by (simp add: kept_def)
next
  case (Cons x cs)
  obtain ps r where pr: "cutCRLF pending x = (ps, r)"
    by (cases "cutCRLF pending x")
  have r: "nocrlf r"
    using cut_rest_nocrlf [OF Cons.prems, of x] pr by simp
  show ?case
    using step_cut [OF Cons.prems, of x out] pr Cons.IH [OF r, of "out @ kept ps"]
    by (simp add: cut_append [of pending x] kept_append split: prod.splits)
qed

section \<open>Claim about the line splitter\<close>

text \<open>
  Claim C5: for every byte stream and every partition of it into read chunks (empty
  reads included), \<open>splitOnCRLF\<close> on a reader that ends with EOF returns \<open>nil\<close> and emits
  exactly \<open>stream_lines\<close> of the stream: the pieces between terminators (each CR and each
  LF ends a piece) and the trailing partial line, trimmed, the empty ones dropped, in
  order. Hence two partitions of one stream emit the same sequence, and a line whose
  bytes arrive in three chunks is emitted once. A read error other than EOF ends the
  call with that error, after the segments of the terminated lines.
\<close>

theorem splitOnCRLF_chunk_independent:
  "splitOnCRLF (reads_of cs c EOF) = (stream_lines (concat cs @ c), Returned None)
   \<and> (concat cs @ c = concat cs' @ c' \<longrightarrow>
        fst (splitOnCRLF (reads_of cs c EOF)) = fst (splitOnCRLF (reads_of cs' c' EOF)))
   \<and> (nocrlf (x @ y @ z) \<and> TrimSpace (x @ y @ z) \<noteq> [] \<longrightarrow>
        fst (splitOnCRLF (reads_of [x, y, z @ [LF]] [] EOF)) = [TrimSpace (x @ y @ z)])
   \<and> (e \<noteq> EOF \<longrightarrow>
        splitOnCRLF (reads_of cs c e) = (terminated_lines (concat cs @ c), Returned (Some e)))"
proof -
  have nil: "nocrlf []"
    by (simp add: nocrlf_def)
  have eof: "splitOnCRLF (reads_of cs c EOF) = (stream_lines (concat cs @ c), Returned None)"
    for cs c
    using splitOnCRLF_loop_reads [OF nil, of cs c EOF "[]"]
    by (simp add: splitOnCRLF_def stream_lines_def split: prod.splits)
  have err: "splitOnCRLF (reads_of cs c e) = (terminated_lines (concat cs @ c), Returned (Some e))"
    if "e \<noteq> EOF"
    using splitOnCRLF_loop_reads [OF nil, of cs c e "[]"] that
    by (simp add: splitOnCRLF_def terminated_lines_def split: prod.splits)
  have three: "fst (splitOnCRLF (reads_of [x, y, z @ [LF]] [] EOF)) = [TrimSpace (x @ y @ z)]"
    if "nocrlf (x @ y @ z)" "TrimSpace (x @ y @ z) \<noteq> []"
  proof -
    have "cutCRLF [] ((x @ y @ z) @ [LF]) = ([x @ y @ z], [])"
      using cut_nocrlf_append [OF that(1), of "[]" "[LF]"] by simp
    then show ?thesis
      using that(2) by (simp add: eof stream_lines_def kept_def TrimSpace_Nil)
  qed
  show ?thesis
    using eof err three by simp
qed

theorem splitOnCRLF_chunk_independent_witness:
  "fst (splitOnCRLF (reads_of [''  ab'', ''c'' @ [CR, LF] @ ''d''] ''e'' EOF)) = [''abc'', ''de'']
   \<and> fst (splitOnCRLF (reads_of [''  abc'' @ [CR], [], [LF] @ ''de''] [] EOF)) = [''abc'', ''de'']
   \<and> fst (splitOnCRLF (reads_of [''Pro'', ''gre'', ''ss'' @ [LF]] [] EOF)) = [''Progress'']
   \<and> splitOnCRLF (reads_of [''  ab'', ''c'' @ [CR, LF] @ ''d''] ''e'' (OtherError ''broken pipe''))
       = ([''abc''], Returned (Some (OtherError ''broken pipe'')))"
proof -
  note t = splitOnCRLF_chunk_independent [of "[''  ab'', ''c'' @ [CR, LF] @ ''d'']" "''e''"
      "[''  abc'' @ [CR], [], [LF] @ ''de'']" "[]" "''Pro''" "''gre''" "''ss''"
      "OtherError ''broken pipe''"]
  have h1: "concat [''  ab'', ''c'' @ [CR, LF] @ ''d''] @ ''e''
             = concat [''  abc'' @ [CR], [], [LF] @ ''de''] @ []"
    by simp
  have h2: "nocrlf (''Pro'' @ ''gre'' @ ''ss'') \<and> TrimSpace (''Pro'' @ ''gre'' @ ''ss'') = ''Progress''"
    by code_simp
  have h3: "OtherError ''broken pipe'' \<noteq> EOF"
    by simp
  have v1: "stream_lines (concat [''  ab'', ''c'' @ [CR, LF] @ ''d''] @ ''e'') = [''abc'', ''de'']"
    by code_simp
  have v2: "terminated_lines (concat [''  ab'', ''c'' @ [CR, LF] @ ''d''] @ ''e'') = [''abc'']"
    by code_simp
  from t have a: "fst (splitOnCRLF (reads_of [''  ab'', ''c'' @ [CR, LF] @ ''d''] ''e'' EOF))
      = [''abc'', ''de'']"
    unfolding v1 by simp
  from t h1 a have b: "fst (splitOnCRLF (reads_of [''  abc'' @ [CR], [], [LF] @ ''de''] [] EOF))
      = [''abc'', ''de'']"
    by metis
  from t h2 have c: "fst (splitOnCRLF (reads_of [''Pro'', ''gre'', ''ss'' @ [LF]] [] EOF))
      = [''Progress'']"
    by simp
  from t h3 have d: "splitOnCRLF (reads_of [''  ab'', ''c'' @ [CR, LF] @ ''d''] ''e''
      (OtherError ''broken pipe'')) = ([''abc''], Returned (Some (OtherError ''broken pipe'')))"
    unfolding v2 by blast
  from a b c d show ?thesis
    by blast
qed

section \<open>\<open>float64\<close>: scaling by a power of two is exact\<close>

lemma pow2nn_power: "pow2nn k = 2 ^ nat k"
proof (induction k rule: pow2nn.induct)
  case (1 k)
  show ?case
  proof (cases "k \<le> 0")
    case True
    then show ?thesis by (simp add: pow2nn.simps [of k])
  next
    case False
    then have h: "pow2nn (k div 2) = 2 ^ nat (k div 2)"
      using "1.IH" by simp
    have ev: "nat k = nat (k div 2) + nat (k div 2)" if "even k"
    proof -
      from that obtain j where j: "k = 2 * j"
        by (elim evenE)
      then have "0 \<le> j" "k div 2 = j" "k = j + j"
        using False by simp_all
      then show ?thesis
        by (simp add: nat_add_distrib)
    qed
    have od: "nat k = Suc (nat (k div 2) + nat (k div 2))" if "odd k"
    proof -
      from that obtain j where j: "k = 2 * j + 1"
        by (elim oddE)
      then have "0 \<le> j" "k div 2 = j" "k = j + j + 1"
        using False by simp_all
      then show ?thesis
        by (simp add: nat_add_distrib)
    qed
    have "pow2nn k = (if even k then 2 ^ nat (k div 2) * 2 ^ nat (k div 2)
                      else 2 * (2 ^ nat (k div 2) * 2 ^ nat (k div 2)))"
      using False h by (simp add: pow2nn.simps [of k] Let_def)
    also have "\<dots> = 2 ^ nat k"
    proof (cases "even k")
      case True
      show ?thesis
        unfolding ev [OF True] using True by (simp add: power_add)
    next
      case False
      show ?thesis
        unfolding od [OF False] using False by (simp add: power_add)
    qed
    finally show ?thesis .
  qed
qed

lemma pow2_powi: "pow2 k = 2 powi k"
  by (simp add: pow2_def pow2nn_power power_int_def power_inverse field_simps)

lemma ilog2_bounds:
  assumes "0 < a"
  shows "2 powi (ilog2 a) \<le> a" and "a < 2 powi (ilog2 a + 1)"
proof -
  obtain p q where pq: "quotient_of a = (p, q)"
    by (cases "quotient_of a")
  have q: "0 < q" and a: "a = of_int p / of_int q"
    using quotient_of_denom_pos [OF pq] quotient_of_div [OF pq] by simp_all
  have p: "0 < p"
    using assms q a by (simp add: zero_less_divide_iff)
  define bp bq where "bp = bitlen p" and "bq = bitlen q"
  have bp: "1 \<le> bp" "(2::rat) powi (bp - 1) \<le> of_int p" "of_int p < (2::rat) powi bp"
  proof -
    show 1: "1 \<le> bp" using p by (simp add: bp_def bitlen_alt_def)
    have "2 ^ nat (bp - 1) \<le> p" "p < 2 ^ nat bp"
      using bitlen_bounds [OF p] by (simp_all add: bp_def)
    then have "(of_int (2 ^ nat (bp - 1)) :: rat) \<le> of_int p" "(of_int p :: rat) < of_int (2 ^ nat bp)"
      by (simp_all only: of_int_le_iff of_int_less_iff)
    then show "(2::rat) powi (bp - 1) \<le> of_int p" "of_int p < (2::rat) powi bp"
      using 1 by (simp_all add: power_int_def)
  qed
  have bq: "1 \<le> bq" "(2::rat) powi (bq - 1) \<le> of_int q" "of_int q < (2::rat) powi bq"
  proof -
    show 1: "1 \<le> bq" using q by (simp add: bq_def bitlen_alt_def)
    have "2 ^ nat (bq - 1) \<le> q" "q < 2 ^ nat bq"
      using bitlen_bounds [OF q] by (simp_all add: bq_def)
    then have "(of_int (2 ^ nat (bq - 1)) :: rat) \<le> of_int q" "(of_int q :: rat) < of_int (2 ^ nat bq)"
      by (simp_all only: of_int_le_iff of_int_less_iff)
    then show "(2::rat) powi (bq - 1) \<le> of_int q" "of_int q < (2::rat) powi bq"
      using 1 by (simp_all add: power_int_def)
  qed
  define k where "k = bp - bq"
  have qpos: "(0::rat) < of_int q" using q by simp
  have up: "a < 2 powi (k + 1)"
  proof -
    have "a * of_int q = of_int p"
      using qpos a by simp
    also have "\<dots> < (2::rat) powi bp"
      by (rule bp(3))
    also have "\<dots> = 2 powi (k + 1) * 2 powi (bq - 1)"
      by (simp add: k_def flip: power_int_add)
    also have "\<dots> \<le> 2 powi (k + 1) * of_int q"
      using bq(2) by (intro mult_left_mono) simp_all
    finally show ?thesis
      using qpos by simp
  qed
  have lo: "2 powi (k - 1) \<le> a"
  proof -
    have "(2::rat) powi (k - 1) * of_int q \<le> 2 powi (k - 1) * 2 powi bq"
      using bq(3) by (intro mult_left_mono) simp_all
    also have "\<dots> = 2 powi (bp - 1)"
      by (simp add: k_def flip: power_int_add)
    also have "\<dots> \<le> of_int p"
      by (rule bp(2))
    also have "\<dots> = a * of_int q"
      using qpos a by simp
    finally show ?thesis
      using qpos by simp
  qed
  have il: "ilog2 a = (if 2 powi k \<le> a then k else k - 1)"
    by (simp add: ilog2_def pq Let_def pow2_powi k_def bp_def bq_def)
  show "2 powi (ilog2 a) \<le> a"
    using lo by (simp add: il)
  show "a < 2 powi (ilog2 a + 1)"
    using up by (auto simp: il not_le)
qed

lemma ilog2_unique:
  assumes "0 < a" "2 powi k \<le> a" "a < 2 powi (k + 1)"
  shows "ilog2 a = k"
proof -
  note b = ilog2_bounds [OF assms(1)]
  have "(2::rat) powi k < 2 powi (ilog2 a + 1)"
    using assms(2) b(2) by simp
  then have 1: "k < ilog2 a + 1"
    using power_int_increasing [of "ilog2 a + 1" k "2::rat"] by (cases "k < ilog2 a + 1") auto
  have "(2::rat) powi (ilog2 a) < 2 powi (k + 1)"
    using assms(3) b(1) by simp
  then have 2: "ilog2 a < k + 1"
    using power_int_increasing [of "k + 1" "ilog2 a" "2::rat"] by (cases "ilog2 a < k + 1") auto
  from 1 2 show ?thesis by simp
qed

lemma ilog2_scale:
  assumes "0 < a"
  shows "ilog2 (a * 2 powi m) = ilog2 a + m"
proof (rule ilog2_unique)
  note b = ilog2_bounds [OF assms]
  show "0 < a * 2 powi m"
    using assms by simp
  have "2 powi (ilog2 a + m) = 2 powi (ilog2 a) * (2::rat) powi m"
    by (simp add: power_int_add)
  also have "\<dots> \<le> a * 2 powi m"
    using b(1) by (intro mult_right_mono) simp_all
  finally show "2 powi (ilog2 a + m) \<le> a * 2 powi m" .
  have "a * 2 powi m < 2 powi (ilog2 a + 1) * (2::rat) powi m"
    using b(2) by (intro mult_strict_right_mono) simp_all
  also have "\<dots> = 2 powi (ilog2 a + m + 1)"
    by (simp add: power_int_add)
  finally show "a * 2 powi m < 2 powi (ilog2 a + m + 1)" .
qed

lemma roundHalfEven_of_int: "roundHalfEven (of_int m) = m"
  by (simp add: roundHalfEven_def)

lemma round_f64_scale:
  assumes r: "round_f64 a = Fin a" and a: "0 < a" and m: "0 \<le> m"
    and b: "a * 2 powi m < 2 powi 1024"
  shows "round_f64 (a * 2 powi m) = Fin (a * 2 powi m)"
proof -
  define e where "e = max (ilog2 a) (- 1022)"
  define n where "n = roundHalfEven (a / 2 powi (e - 52))"
  have an: "a = of_int n * 2 powi (e - 52)"
    using r a by (simp add: round_f64_def Let_def pow2_powi e_def n_def split: if_splits)
  define e2 where "e2 = max (ilog2 (a * 2 powi m)) (- 1022)"
  define d where "d = e + m - e2"
  have d: "0 \<le> d"
    using m by (simp add: d_def e2_def e_def ilog2_scale [OF a])
  have "a * 2 powi m / 2 powi (e2 - 52) = of_int n * (2 powi (e - 52) * 2 powi m / 2 powi (e2 - 52))"
    by (simp add: an)
  also have "2 powi (e - 52) * 2 powi m / (2::rat) powi (e2 - 52) = 2 powi d"
    by (simp add: d_def power_int_diff flip: power_int_add)
  also have "(2::rat) powi d = of_int (2 ^ nat d)"
    using d by (simp add: power_int_def)
  finally have q: "a * 2 powi m / 2 powi (e2 - 52) = of_int (n * 2 ^ nat d)"
    by simp
  have "of_int (roundHalfEven (a * 2 powi m / 2 powi (e2 - 52))) * 2 powi (e2 - 52)
          = a * 2 powi m / 2 powi (e2 - 52) * 2 powi (e2 - 52)"
    unfolding q roundHalfEven_of_int ..
  also have "\<dots> = a * 2 powi m"
    by simp
  finally have rb: "of_int (roundHalfEven (a * 2 powi m / 2 powi (e2 - 52))) * 2 powi (e2 - 52)
          = a * 2 powi m" .
  have pos: "0 < a * 2 powi m"
    using a by simp
  show ?thesis
    using pos b rb
    by (simp add: round_f64_def Let_def pow2_powi flip: e2_def)
qed

lemma fmul_1024_exact:
  assumes "round_f64 a = Fin a" "0 \<le> a" "a * 1024 < 2 powi 1024"
  shows "fmul (Fin a) (Fin 1024) = Fin (a * 1024)" and "round_f64 (a * 1024) = Fin (a * 1024)"
proof -
  have k: "(1024::rat) = 2 powi 10"
    by simp
  show "round_f64 (a * 1024) = Fin (a * 1024)"
  proof (cases "a = 0")
    case True
    then show ?thesis by (simp add: round_f64_def)
  next
    case False
    then show ?thesis
      using round_f64_scale [of a 10] assms unfolding k by simp
  qed
  then show "fmul (Fin a) (Fin 1024) = Fin (a * 1024)"
    by (simp add: fmul_def)
qed

section \<open>Progress parser: proofs\<close>

lemma parseDone_flags:
  "hasPercent (parseDone c out) = hasPercent out" "hasSpeed (parseDone c out) = hasSpeed out"
  "hasDone (parseDone c out) \<Longrightarrow> \<not> hasDone out \<Longrightarrow> FindStringSubmatch reOKSize c \<noteq> None"
  by (auto simp: parseDone_def split: option.splits if_splits)

lemma parsePercent_flags:
  "hasDone (parsePercent c out) = hasDone out" "hasSpeed (parsePercent c out) = hasSpeed out"
  "hasPercent (parsePercent c out) \<Longrightarrow> \<not> hasPercent out \<Longrightarrow> FindStringSubmatch reProgress c \<noteq> None"
  by (auto simp: parsePercent_def split: option.splits if_splits)

lemma parseSpeed_flags:
  "hasDone (parseSpeed c out) = hasDone out" "hasPercent (parseSpeed c out) = hasPercent out"
  "hasSpeed (parseSpeed c out) \<Longrightarrow> \<not> hasSpeed out \<Longrightarrow> FindStringSubmatch reSpeedUnit c \<noteq> None"
  by (auto simp: parseSpeed_def split: option.splits if_splits)

lemma parse_no_match:
  "FindStringSubmatch reOKSize c = None \<Longrightarrow> parseDone c out = out"
  "FindStringSubmatch reProgress c = None \<Longrightarrow> parsePercent c out = out"
  "FindStringSubmatch reSpeedUnit c = None \<Longrightarrow> parseSpeed c out = out"
  by (simp_all add: parseDone_def parsePercent_def parseSpeed_def)

lemma parse_flags_need_match:
  "hasDone (parseProgressSegment seg) \<Longrightarrow> FindStringSubmatch reOKSize (cleanSegment seg) \<noteq> None"
  "hasPercent (parseProgressSegment seg) \<Longrightarrow> FindStringSubmatch reProgress (cleanSegment seg) \<noteq> None"
  "hasSpeed (parseProgressSegment seg) \<Longrightarrow> FindStringSubmatch reSpeedUnit (cleanSegment seg) \<noteq> None"
proof -
  have n: "\<not> hasDone noProgress" "\<not> hasPercent noProgress" "\<not> hasSpeed noProgress"
    by (simp_all add: noProgress_def)
  show "hasDone (parseProgressSegment seg) \<Longrightarrow> FindStringSubmatch reOKSize (cleanSegment seg) \<noteq> None"
    using parseDone_flags(3) [OF _ n(1)]
    by (simp add: parseProgressSegment_def Let_def parseSpeed_flags parsePercent_flags)
  show "hasPercent (parseProgressSegment seg) \<Longrightarrow> FindStringSubmatch reProgress (cleanSegment seg) \<noteq> None"
    using parsePercent_flags(3) [of "cleanSegment seg" "parseDone (cleanSegment seg) noProgress"] n
    by (simp add: parseProgressSegment_def Let_def parseSpeed_flags parseDone_flags)
  show "hasSpeed (parseProgressSegment seg) \<Longrightarrow> FindStringSubmatch reSpeedUnit (cleanSegment seg) \<noteq> None"
    using parseSpeed_flags(3) [of "cleanSegment seg"
        "parsePercent (cleanSegment seg) (parseDone (cleanSegment seg) noProgress)"] n
    by (simp add: parseProgressSegment_def Let_def parsePercent_flags parseDone_flags)
qed

lemma upperASCII_prefixes:
  "map upperASCII ''kmgtp'' = ''KMGTP''" "map upperASCII ''KMGTP'' = ''KMGTP''"
  by code_simp+

lemma speedToBps_prefixes:
  "speedToBps v ''K'' = fmul v (Fin 1024)"
  "speedToBps v ''M'' = fmul (fmul v (Fin 1024)) (Fin 1024)"
  "speedToBps v ''G'' = fmul (fmul (fmul v (Fin 1024)) (Fin 1024)) (Fin 1024)"
  "speedToBps v ''T'' = fmul (fmul (fmul (fmul v (Fin 1024)) (Fin 1024)) (Fin 1024)) (Fin 1024)"
  "speedToBps v ''P'' =
     fmul (fmul (fmul (fmul (fmul v (Fin 1024)) (Fin 1024)) (Fin 1024)) (Fin 1024)) (Fin 1024)"
  "speedToBps v [] = v"
  using upperASCII_prefixes(2) by (simp_all add: speedToBps_def ToUpper_def Let_def)

lemma speedToBps_lower:
  "speedToBps v ''k'' = speedToBps v ''K''" "speedToBps v ''m'' = speedToBps v ''M''"
  "speedToBps v ''g'' = speedToBps v ''G''" "speedToBps v ''t'' = speedToBps v ''T''"
  "speedToBps v ''p'' = speedToBps v ''P''"
  using upperASCII_prefixes by (simp_all add: speedToBps_def ToUpper_def Let_def)

lemma speedToBps_exact:
  assumes r: "round_f64 a = Fin a" and a: "0 \<le> a" and b: "a * 2 ^ 50 < 2 powi 1024"
  shows "speedToBps (Fin a) ''K'' = Fin (a * 2 ^ 10)"
    and "speedToBps (Fin a) ''M'' = Fin (a * 2 ^ 20)"
    and "speedToBps (Fin a) ''G'' = Fin (a * 2 ^ 30)"
    and "speedToBps (Fin a) ''T'' = Fin (a * 2 ^ 40)"
    and "speedToBps (Fin a) ''P'' = Fin (a * 2 ^ 50)"
proof -
  have lt: "a * 2 ^ n < 2 powi 1024" if "n \<le> 50" for n :: nat
  proof -
    have "(2::rat) ^ n \<le> 2 ^ 50"
      using that by (intro power_increasing) simp_all
    then have "a * 2 ^ n \<le> a * 2 ^ 50"
      using a by (intro mult_left_mono)
    then show ?thesis
      using b by simp
  qed
  have 1: "fmul (Fin a) (Fin 1024) = Fin (a * 2 ^ 10)" "round_f64 (a * 2 ^ 10) = Fin (a * 2 ^ 10)"
    using fmul_1024_exact [OF r a] lt [of 10] by simp_all
  have 2: "fmul (Fin (a * 2 ^ 10)) (Fin 1024) = Fin (a * 2 ^ 20)"
    "round_f64 (a * 2 ^ 20) = Fin (a * 2 ^ 20)"
    using fmul_1024_exact [OF 1(2)] a lt [of 20] by (simp_all add: mult.assoc)
  have 3: "fmul (Fin (a * 2 ^ 20)) (Fin 1024) = Fin (a * 2 ^ 30)"
    "round_f64 (a * 2 ^ 30) = Fin (a * 2 ^ 30)"
    using fmul_1024_exact [OF 2(2)] a lt [of 30] by (simp_all add: mult.assoc)
  have 4: "fmul (Fin (a * 2 ^ 30)) (Fin 1024) = Fin (a * 2 ^ 40)"
    "round_f64 (a * 2 ^ 40) = Fin (a * 2 ^ 40)"
    using fmul_1024_exact [OF 3(2)] a lt [of 40] by (simp_all add: mult.assoc)
  have 5: "fmul (Fin (a * 2 ^ 40)) (Fin 1024) = Fin (a * 2 ^ 50)"
    using fmul_1024_exact [OF 4(2)] a lt [of 50] by (simp_all add: mult.assoc)
  show "speedToBps (Fin a) ''K'' = Fin (a * 2 ^ 10)"
    and "speedToBps (Fin a) ''M'' = Fin (a * 2 ^ 20)"
    and "speedToBps (Fin a) ''G'' = Fin (a * 2 ^ 30)"
    and "speedToBps (Fin a) ''T'' = Fin (a * 2 ^ 40)"
    and "speedToBps (Fin a) ''P'' = Fin (a * 2 ^ 50)"
    by (simp_all only: speedToBps_prefixes 1 2 3 4 5)
qed

lemma fmul_1024_pow:
  "fmul (Fin 1) (Fin 1024) = Fin (2 ^ 10)"
  "fmul (Fin (2 ^ 10)) (Fin 1024) = Fin (2 ^ 20)"
  "fmul (Fin (2 ^ 20)) (Fin 1024) = Fin (2 ^ 30)"
  "fmul (Fin (2 ^ 30)) (Fin 1024) = Fin (2 ^ 40)"
  "fmul (Fin (2 ^ 40)) (Fin 1024) = Fin (2 ^ 50)"
  by code_simp+

lemma parse_example_done:
  "parseProgressSegment ''OK size: 1,048,576'' = noProgress\<lparr>doneBytes := 1048576, hasDone := True\<rparr>"
  by code_simp

lemma parse_example_percent:
  "parseProgressSegment ''Progress: 45.5%'' = noProgress\<lparr>percent := Fin 45.5, hasPercent := True\<rparr>"
  by code_simp

lemma parse_example_speed:
  "parseProgressSegment ''Speed: 2.50MB/s'' = noProgress\<lparr>speedBps := Fin (2.5 * 1024 * 1024), hasSpeed := True\<rparr>"
  by code_simp

lemma parse_example_none:
  "cleanSegment ''Error: AccessDenied'' = ''Error: AccessDenied''"
  "FindStringSubmatch reOKSize ''Error: AccessDenied'' = None"
  "FindStringSubmatch reProgress ''Error: AccessDenied'' = None"
  "FindStringSubmatch reSpeedUnit ''Error: AccessDenied'' = None"
  by code_simp+

lemma parse_example_KiB:
  "parseProgressSegment ''Speed: 2.5KiB/s'' = noProgress\<lparr>speedBps := Fin (2.5 * 1024), hasSpeed := True\<rparr>"
  by code_simp

lemma parse_example_KB:
  "parseProgressSegment ''Speed: 2.5KB/s'' = noProgress\<lparr>speedBps := Fin (2.5 * 1024), hasSpeed := True\<rparr>"
  by code_simp

lemma speed_pattern_i:
  "FindStringSubmatch reSpeedUnit ''Speed: 2.5KiB/s'' = Some [''Speed: 2.5KiB/s'', ''2.5'', ''K'']"
  "FindStringSubmatch reSpeedUnit ''Speed: 2.5KB/s'' = Some [''Speed: 2.5KB/s'', ''2.5'', ''K'']"
  "FindStringSubmatch reSpeedUnit ''speed: 2.5kib/s'' = Some [''speed: 2.5kib/s'', ''2.5'', ''k'']"
  "FindStringSubmatch reSpeedUnit ''SPEED: 2.5KIB/S'' = Some [''SPEED: 2.5KIB/S'', ''2.5'', ''K'']"
  "FindStringSubmatch reSpeedUnit ''Speed: 2.5MiB/s'' = Some [''Speed: 2.5MiB/s'', ''2.5'', ''M'']"
  "FindStringSubmatch reSpeedUnit ''Speed: 2.5GiB/s'' = Some [''Speed: 2.5GiB/s'', ''2.5'', ''G'']"
  "FindStringSubmatch reSpeedUnit ''Speed: 2.5TiB/s'' = Some [''Speed: 2.5TiB/s'', ''2.5'', ''T'']"
  "FindStringSubmatch reSpeedUnit ''Speed: 2.5PiB/s'' = Some [''Speed: 2.5PiB/s'', ''2.5'', ''P'']"
  "FindStringSubmatch reSpeedUnit ''Speed: 2.5iB/s'' = Some [''Speed: 2.5iB/s'', ''2.5'', []]"
  by code_simp+

section \<open>Claims about the progress parser\<close>

text \<open>
  Claim C4: \<open>parseProgressSegment\<close> maps \<open>OK size: 1,048,576\<close> to \<open>doneBytes = 1048576\<close> with
  \<open>hasDone\<close>, \<open>Progress: 45.5%\<close> to \<open>percent = 45.5\<close> with \<open>hasPercent\<close>, and \<open>Speed: 2.50MB/s\<close> to
  \<open>speedBps = 2.5 * 1024 * 1024\<close> with \<open>hasSpeed\<close> (all other fields as in the zero value).
  The unit prefix multiplies the value by 1024 once for \<open>K\<close>, twice for \<open>M\<close>, up to five
  times for \<open>P\<close>, in either case of the letter; no prefix leaves the value. For a value
  \<open>a \<ge> 0\<close> that is a \<open>float64\<close> the product is exactly \<open>a * 2^10\<close>, \<open>a * 2^20\<close>, \<open>a * 2^30\<close>,
  \<open>a * 2^40\<close>, \<open>a * 2^50\<close> as long as it stays below the overflow threshold \<open>2^1024\<close>. A flag is set only if its pattern matches the cleaned line,
  so a line on which none of the three patterns matches yields the zero value, all three
  flags false.
\<close>

theorem parseProgressSegment_spec:
  "parseProgressSegment ''OK size: 1,048,576'' = noProgress\<lparr>doneBytes := 1048576, hasDone := True\<rparr>
   \<and> parseProgressSegment ''Progress: 45.5%'' = noProgress\<lparr>percent := Fin 45.5, hasPercent := True\<rparr>
   \<and> parseProgressSegment ''Speed: 2.50MB/s''
       = noProgress\<lparr>speedBps := Fin (2.5 * 1024 * 1024), hasSpeed := True\<rparr>
   \<and> speedToBps v ''K'' = fmul v (Fin 1024)
   \<and> speedToBps v ''M'' = fmul (fmul v (Fin 1024)) (Fin 1024)
   \<and> speedToBps v ''G'' = fmul (fmul (fmul v (Fin 1024)) (Fin 1024)) (Fin 1024)
   \<and> speedToBps v ''T'' = fmul (fmul (fmul (fmul v (Fin 1024)) (Fin 1024)) (Fin 1024)) (Fin 1024)
   \<and> speedToBps v ''P''
       = fmul (fmul (fmul (fmul (fmul v (Fin 1024)) (Fin 1024)) (Fin 1024)) (Fin 1024)) (Fin 1024)
   \<and> speedToBps v [] = v
   \<and> speedToBps v ''k'' = speedToBps v ''K'' \<and> speedToBps v ''m'' = speedToBps v ''M''
   \<and> speedToBps v ''g'' = speedToBps v ''G'' \<and> speedToBps v ''t'' = speedToBps v ''T''
   \<and> speedToBps v ''p'' = speedToBps v ''P''
   \<and> speedToBps (Fin 1) ''K'' = Fin (2 ^ 10) \<and> speedToBps (Fin 1) ''M'' = Fin (2 ^ 20)
   \<and> speedToBps (Fin 1) ''G'' = Fin (2 ^ 30) \<and> speedToBps (Fin 1) ''T'' = Fin (2 ^ 40)
   \<and> speedToBps (Fin 1) ''P'' = Fin (2 ^ 50)
   \<and> (round_f64 a = Fin a \<and> 0 \<le> a \<and> a * 2 ^ 50 < 2 powi 1024 \<longrightarrow>
        speedToBps (Fin a) ''K'' = Fin (a * 2 ^ 10) \<and> speedToBps (Fin a) ''M'' = Fin (a * 2 ^ 20)
        \<and> speedToBps (Fin a) ''G'' = Fin (a * 2 ^ 30) \<and> speedToBps (Fin a) ''T'' = Fin (a * 2 ^ 40)
        \<and> speedToBps (Fin a) ''P'' = Fin (a * 2 ^ 50))
   \<and> (hasDone (parseProgressSegment seg)
        \<longrightarrow> FindStringSubmatch reOKSize (cleanSegment seg) \<noteq> None)
   \<and> (hasPercent (parseProgressSegment seg)
        \<longrightarrow> FindStringSubmatch reProgress (cleanSegment seg) \<noteq> None)
   \<and> (hasSpeed (parseProgressSegment seg)
        \<longrightarrow> FindStringSubmatch reSpeedUnit (cleanSegment seg) \<noteq> None)
   \<and> (FindStringSubmatch reOKSize (cleanSegment seg) = None
        \<and> FindStringSubmatch reProgress (cleanSegment seg) = None
        \<and> FindStringSubmatch reSpeedUnit (cleanSegment seg) = None
        \<longrightarrow> parseProgressSegment seg = noProgress
            \<and> \<not> hasDone (parseProgressSegment seg) \<and> \<not> hasPercent (parseProgressSegment seg)
            \<and> \<not> hasSpeed (parseProgressSegment seg))"
proof -
  have none: "parseProgressSegment seg = noProgress"
    if "FindStringSubmatch reOKSize (cleanSegment seg) = None"
      "FindStringSubmatch reProgress (cleanSegment seg) = None"
      "FindStringSubmatch reSpeedUnit (cleanSegment seg) = None"
    using that by (simp add: parseProgressSegment_def Let_def parse_no_match)
  have flags: "\<not> hasDone noProgress" "\<not> hasPercent noProgress" "\<not> hasSpeed noProgress"
    by (simp_all add: noProgress_def)
  have one: "speedToBps (Fin 1) ''K'' = Fin (2 ^ 10)" "speedToBps (Fin 1) ''M'' = Fin (2 ^ 20)"
    "speedToBps (Fin 1) ''G'' = Fin (2 ^ 30)" "speedToBps (Fin 1) ''T'' = Fin (2 ^ 40)"
    "speedToBps (Fin 1) ''P'' = Fin (2 ^ 50)"
    by (simp_all only: speedToBps_prefixes fmul_1024_pow)
  show ?thesis
    by (intro conjI impI parse_example_done parse_example_percent parse_example_speed
        speedToBps_prefixes speedToBps_lower one parse_flags_need_match)
       (simp_all add: none flags speedToBps_exact)
qed

lemma f64_example: "round_f64 (5 / 2) = Fin (5 / 2)"
  by code_simp

theorem parseProgressSegment_spec_witness:
  "FindStringSubmatch reOKSize (cleanSegment ''Error: AccessDenied'') = None
   \<and> FindStringSubmatch reProgress (cleanSegment ''Error: AccessDenied'') = None
   \<and> FindStringSubmatch reSpeedUnit (cleanSegment ''Error: AccessDenied'') = None
   \<and> parseProgressSegment ''Error: AccessDenied'' = noProgress
   \<and> \<not> hasDone (parseProgressSegment ''Error: AccessDenied'')
   \<and> \<not> hasPercent (parseProgressSegment ''Error: AccessDenied'')
   \<and> \<not> hasSpeed (parseProgressSegment ''Error: AccessDenied'')
   \<and> hasSpeed (parseProgressSegment ''Speed: 2.50MB/s'')
   \<and> FindStringSubmatch reSpeedUnit (cleanSegment ''Speed: 2.50MB/s'') \<noteq> None
   \<and> round_f64 (5 / 2) = Fin (5 / 2) \<and> (0::rat) \<le> 5 / 2 \<and> (5 / 2 :: rat) * 2 ^ 50 < 2 powi 1024
   \<and> speedToBps (Fin (5 / 2)) ''M'' = Fin (5 / 2 * 2 ^ 20)"
proof -
  note a = parseProgressSegment_spec [of "Fin 1" "5 / 2" "''Error: AccessDenied''"]
  note b = parseProgressSegment_spec [of "Fin 1" "5 / 2" "''Speed: 2.50MB/s''"]
  have h: "(0::rat) \<le> 5 / 2" "(5 / 2 :: rat) * 2 ^ 50 < 2 powi 1024"
    by simp_all
  from b have s: "hasSpeed (parseProgressSegment ''Speed: 2.50MB/s'')"
    by (simp add: noProgress_def)
  from b s have m: "FindStringSubmatch reSpeedUnit (cleanSegment ''Speed: 2.50MB/s'') \<noteq> None"
    by blast
  from a f64_example h have x: "speedToBps (Fin (5 / 2)) ''M'' = Fin (5 / 2 * 2 ^ 20)"
    by blast
  from a have n: "parseProgressSegment ''Error: AccessDenied'' = noProgress"
    by (simp add: parse_example_none)
  show ?thesis
    using n s m x h f64_example by (simp add: parse_example_none noProgress_def)
qed

text \<open>
  Claim C10: the speed pattern accepts an optional \<open>i\<close> between the unit prefix and \<open>B/s\<close>.
  \<open>Speed: 2.5KiB/s\<close> parses with \<open>hasSpeed\<close> and the same value, \<open>2.5 * 1024\<close>, as
  \<open>Speed: 2.5KB/s\<close>; the pattern captures the same number and prefix with and without the
  \<open>i\<close>, in lower and upper case, for each of the prefixes and for no prefix.
\<close>

theorem speed_pattern_optional_i:
  "parseProgressSegment ''Speed: 2.5KiB/s'' = noProgress\<lparr>speedBps := Fin (2.5 * 1024), hasSpeed := True\<rparr>
   \<and> parseProgressSegment ''Speed: 2.5KB/s'' = noProgress\<lparr>speedBps := Fin (2.5 * 1024), hasSpeed := True\<rparr>
   \<and> hasSpeed (parseProgressSegment ''Speed: 2.5KiB/s'')
   \<and> FindStringSubmatch reSpeedUnit ''Speed: 2.5KiB/s'' = Some [''Speed: 2.5KiB/s'', ''2.5'', ''K'']
   \<and> FindStringSubmatch reSpeedUnit ''Speed: 2.5KB/s'' = Some [''Speed: 2.5KB/s'', ''2.5'', ''K'']
   \<and> FindStringSubmatch reSpeedUnit ''speed: 2.5kib/s'' = Some [''speed: 2.5kib/s'', ''2.5'', ''k'']
   \<and> FindStringSubmatch reSpeedUnit ''SPEED: 2.5KIB/S'' = Some [''SPEED: 2.5KIB/S'', ''2.5'', ''K'']
   \<and> FindStringSubmatch reSpeedUnit ''Speed: 2.5MiB/s'' = Some [''Speed: 2.5MiB/s'', ''2.5'', ''M'']
   \<and> FindStringSubmatch reSpeedUnit ''Speed: 2.5GiB/s'' = Some [''Speed: 2.5GiB/s'', ''2.5'', ''G'']
   \<and> FindStringSubmatch reSpeedUnit ''Speed: 2.5TiB/s'' = Some [''Speed: 2.5TiB/s'', ''2.5'', ''T'']
   \<and> FindStringSubmatch reSpeedUnit ''Speed: 2.5PiB/s'' = Some [''Speed: 2.5PiB/s'', ''2.5'', ''P'']
   \<and> FindStringSubmatch reSpeedUnit ''Speed: 2.5iB/s'' = Some [''Speed: 2.5iB/s'', ''2.5'', []]
   \<and> speedToBps v ''k'' = speedToBps v ''K''"
  by (intro conjI parse_example_KiB parse_example_KB speed_pattern_i speedToBps_lower)
     (simp add: parse_example_KiB noProgress_def)

section \<open>\<open>TrimSpace\<close> is idempotent\<close>

lemma HasPrefix_take: "HasPrefix (take n s) e \<Longrightarrow> HasPrefix s e"
proof -
  assume a: "HasPrefix (take n s) e"
  then have l: "length e \<le> n" "length e \<le> length s" and t: "take (length e) (take n s) = e"
    by (auto simp: HasPrefix_def)
  from t l have "take (length e) s = e"
    by (simp add: min_def)
  then show ?thesis
    using l by (simp add: HasPrefix_def)
qed

lemma spaceAtHead_take: "spaceAtHead s = 0 \<Longrightarrow> spaceAtHead (take n s) = 0"
proof (cases "take n s")
  case Nil
  show ?thesis
    unfolding spaceAtHead_def Nil by simp
next
  case (Cons c t)
  assume z: "spaceAtHead s = 0"
  from Cons obtain t' where s: "s = c # t'"
    by (cases s; cases n) auto
  from z s have c: "\<not> asciiSpace c"
    by (auto simp: spaceAtHead_def split: if_splits)
  from z s c have "(case filter (HasPrefix s) unicodeSpaces of [] \<Rightarrow> 0 | e # _ \<Rightarrow> length e) = 0"
    by (simp add: spaceAtHead_def)
  moreover have "\<forall>e \<in> set unicodeSpaces. e \<noteq> []"
    by (simp add: unicodeSpaces_def)
  ultimately have f: "filter (HasPrefix s) unicodeSpaces = []"
  proof (cases "filter (HasPrefix s) unicodeSpaces")
    case Nil
    then show ?thesis .
  next
    case (Cons e r)
    then have "e \<in> set (filter (HasPrefix s) unicodeSpaces)"
      by simp
    then have "e \<in> set unicodeSpaces"
      by simp
    with \<open>\<forall>e \<in> set unicodeSpaces. e \<noteq> []\<close> have "e \<noteq> []"
      by blast
    moreover assume "(case filter (HasPrefix s) unicodeSpaces of [] \<Rightarrow> 0 | e # _ \<Rightarrow> length e) = 0"
    ultimately show ?thesis
      using Cons by simp
  qed
  have "filter (HasPrefix (take n s)) unicodeSpaces = []"
    using f HasPrefix_take [of n s] by (auto simp: filter_empty_conv)
  then show ?thesis
    using c Cons by (simp add: spaceAtHead_def)
qed

lemma TrimLeftSpace_head: "spaceAtHead (TrimLeftSpace s) = 0"
  by (induction s rule: TrimLeftSpace.induct) (simp add: TrimLeftSpace.simps)

lemma TrimRightSpace_end: "spaceAtEnd (TrimRightSpace s) = 0"
  by (induction s rule: TrimRightSpace.induct) (simp add: TrimRightSpace.simps)

lemma TrimRightSpace_head: "spaceAtHead s = 0 \<Longrightarrow> spaceAtHead (TrimRightSpace s) = 0"
proof (induction s rule: TrimRightSpace.induct)
  case (1 s)
  show ?case
  proof (cases "spaceAtEnd s = 0")
    case True
    then show ?thesis
      using "1.prems" by (simp add: TrimRightSpace.simps [of s])
  next
    case False
    then show ?thesis
      using "1.IH" [OF False spaceAtHead_take [OF "1.prems"]]
      by (simp add: TrimRightSpace.simps [of s])
  qed
qed

lemma TrimSpace_idem: "TrimSpace (TrimSpace s) = TrimSpace s"
proof -
  have h: "spaceAtHead (TrimSpace s) = 0" and e: "spaceAtEnd (TrimSpace s) = 0"
    by (simp_all add: TrimSpace_def TrimRightSpace_head TrimLeftSpace_head TrimRightSpace_end)
  have "TrimLeftSpace (TrimSpace s) = TrimSpace s"
    using h by (simp add: TrimLeftSpace.simps [of "TrimSpace s"])
  moreover have "TrimRightSpace (TrimSpace s) = TrimSpace s"
    using e by (simp add: TrimRightSpace.simps [of "TrimSpace s"])
  ultimately show ?thesis
    by (simp add: TrimSpace_def [of "TrimSpace s"])
qed

section \<open>Segment loop: proofs\<close>

lemma newRingBuffer_ok: "rb_ok (newRingBuffer c)"
  by (simp add: rb_ok_def newRingBuffer_def)

lemma AppendLine_ok:
  assumes "rb_ok b"
  shows "\<exists>b'. AppendLine line b = Some b' \<and> rb_ok b'"
proof -
  have c: "1 \<le> rb_cap b" and l: "length (rb_data b) \<le> nat (rb_cap b)"
    using assms unfolding rb_ok_def by linarith+
  have "rb_data b = last_bytes (nat (rb_cap b)) (rb_data b)"
    using l by (simp add: last_bytes_all)
  from AppendLine_step [OF c this, of line] show ?thesis
    using c by (simp add: rb_ok_def last_bytes_length)
qed

lemma emit_fields:
  "outputTail (emit force now st) = outputTail st"
  "cur_done (emit force now st) = cur_done st"
  "cur_speed (emit force now st) = cur_speed st"
  "TotalBytes (upd (emit force now st)) = TotalBytes (upd st)"
  by (simp_all add: emit_def Let_def)

lemma emit_snapshots:
  "snapshots (emit force now st) = snapshots st \<and> upd (emit force now st) = upd st
   \<or> (snapshots (emit force now st) = snapshots st @ [upd (emit force now st)]
      \<and> DoneBytes (upd (emit force now st)) = cur_done st
      \<and> SpeedBytesPerSec (upd (emit force now st)) = cur_speed st
      \<and> EtaSeconds (upd (emit force now st))
          = eta_of (TotalBytes (upd st)) (cur_done st) (cur_speed st))"
  by (simp add: emit_def Let_def)

lemma emit_forced:
  "snapshots (emit True now st) = snapshots st @ [upd (emit True now st)]"
  "DoneBytes (upd (emit True now st)) = cur_done st"
  "SpeedBytesPerSec (upd (emit True now st)) = cur_speed st"
  "EtaSeconds (upd (emit True now st)) = eta_of (TotalBytes (upd st)) (cur_done st) (cur_speed st)"
  by (simp_all add: emit_def Let_def)

text \<open>The invariant of the loop for the ETA: every snapshot carries the ETA of its own fields.\<close>

lemma emit_eta:
  assumes "\<forall>u \<in> set (snapshots st). EtaSeconds u = eta_of (TotalBytes u) (DoneBytes u) (SpeedBytesPerSec u)"
  shows "\<forall>u \<in> set (snapshots (emit force now st)).
           EtaSeconds u = eta_of (TotalBytes u) (DoneBytes u) (SpeedBytesPerSec u)"
  using assms by (auto simp: emit_def Let_def)

lemma processSegment_cases:
  assumes "rb_ok (outputTail st)"
  shows "\<exists>st'. processSegment sn st = Some st' \<and> rb_ok (outputTail st')
           \<and> TotalBytes (upd st') = TotalBytes (upd st)
           \<and> cur_done st' = nextDone (parseProgressSegment (stripANSI (fst sn)))
                               (TotalBytes (upd st)) (cur_done st)
           \<and> (\<exists>sp f. st' = emit f (snd sn) (st\<lparr>cur_done := cur_done st', cur_speed := sp\<rparr>)
                \<or> (snapshots st' = snapshots st \<and> upd st' = upd st))"
proof -
  let ?p = "parseProgressSegment (stripANSI (fst sn))"
  let ?d = "nextDone ?p (TotalBytes (upd st)) (cur_done st)"
  let ?sp = "if hasSpeed ?p then speedBps ?p else cur_speed st"
  let ?st2 = "st\<lparr>cur_done := ?d, cur_speed := ?sp\<rparr>"
  show ?thesis
  proof (cases "hasDone ?p \<or> hasSpeed ?p \<or> hasPercent ?p")
    case True
    then have r: "processSegment sn st = Some (emit False (snd sn) ?st2)"
      by (simp add: processSegment_def Let_def)
    have "emit False (snd sn) ?st2
            = emit False (snd sn) (st\<lparr>cur_done := cur_done (emit False (snd sn) ?st2), cur_speed := ?sp\<rparr>)"
      by (simp add: emit_fields)
    then have "\<exists>sp f. emit False (snd sn) ?st2
            = emit f (snd sn) (st\<lparr>cur_done := cur_done (emit False (snd sn) ?st2), cur_speed := sp\<rparr>)"
      by blast
    then show ?thesis
      using assms r by (simp add: emit_fields)
  next
    case False
    obtain b' where b: "AppendLine (TrimSpace (stripANSI (fst sn))) (outputTail st) = Some b'" "rb_ok b'"
      using AppendLine_ok [OF assms] by blast
    then show ?thesis
      using False by (simp add: processSegment_def Let_def)
  qed
qed

lemma processSegments_total:
  "rb_ok (outputTail st) \<Longrightarrow> \<exists>st'. processSegments sns st = Some st'"
proof (induction sns arbitrary: st)
  case Nil
  then show ?case by simp
next
  case (Cons sn sns)
  obtain st1 where "processSegment sn st = Some st1" "rb_ok (outputTail st1)"
    using processSegment_cases [OF Cons.prems, of sn] by blast
  then show ?case
    using Cons.IH [of st1] by simp
qed

lemma processSegments_eta:
  "rb_ok (outputTail st) \<Longrightarrow> processSegments sns st = Some st' \<Longrightarrow>
   \<forall>u \<in> set (snapshots st). EtaSeconds u = eta_of (TotalBytes u) (DoneBytes u) (SpeedBytesPerSec u) \<Longrightarrow>
   \<forall>u \<in> set (snapshots st'). EtaSeconds u = eta_of (TotalBytes u) (DoneBytes u) (SpeedBytesPerSec u)"
proof (induction sns arbitrary: st)
  case Nil
  then show ?case by simp
next
  case (Cons sn sns)
  obtain st1 where s1: "processSegment sn st = Some st1" "rb_ok (outputTail st1)"
    and c: "(\<exists>sp f. st1 = emit f (snd sn) (st\<lparr>cur_done := cur_done st1, cur_speed := sp\<rparr>))
            \<or> (snapshots st1 = snapshots st \<and> upd st1 = upd st)"
    using processSegment_cases [OF Cons.prems(1), of sn] by blast
  have e1: "\<forall>u \<in> set (snapshots st1). EtaSeconds u = eta_of (TotalBytes u) (DoneBytes u) (SpeedBytesPerSec u)"
    using c
  proof
    assume "\<exists>sp f. st1 = emit f (snd sn) (st\<lparr>cur_done := cur_done st1, cur_speed := sp\<rparr>)"
    then obtain sp f where "st1 = emit f (snd sn) (st\<lparr>cur_done := cur_done st1, cur_speed := sp\<rparr>)"
      by blast
    then show ?thesis
      using emit_eta [of "st\<lparr>cur_done := cur_done st1, cur_speed := sp\<rparr>" f "snd sn"] Cons.prems(3)
      by simp
  next
    assume "snapshots st1 = snapshots st \<and> upd st1 = upd st"
    then show ?thesis
      using Cons.prems(3) by simp
  qed
  show ?case
    using Cons.IH [OF s1(2) _ e1] Cons.prems(2) s1(1) by simp
qed

section \<open>Claim about the validation of requests\<close>

text \<open>
  Claim C8: \<open>EnqueueUpload\<close> returns an error, with no id, and leaves the service as it
  was (no update emitted, no transfer launched, the counter untouched) when the trimmed
  local path is empty, the trimmed bucket is empty, \<open>os.Stat\<close> of the trimmed path fails
  (the path names no existing file) or the path is a directory. \<open>EnqueueDownload\<close> does
  the same when the trimmed local path is empty, the trimmed bucket is empty, or the
  object key is empty after trimming white space and one leading slash.
\<close>

theorem enqueue_validation:
  "(TrimSpace localPath = [] \<or> TrimSpace bucket = []
      \<or> (\<exists>err. stat (TrimSpace localPath) = Inl err)
      \<or> (\<exists>fi. stat (TrimSpace localPath) = Inr fi \<and> fi_IsDir fi)
     \<longrightarrow> (\<exists>err. EnqueueUpload stat now1 now2 config bucket pfx localPath s = (([], Some err), s)))
   \<and> (TrimSpace localPath = [] \<or> TrimSpace bucket = []
        \<or> TrimPrefix (TrimSpace object) ''/'' = []
     \<longrightarrow> (\<exists>err. EnqueueDownload now1 now2 config bucket object localPath tot s
                 = (([], Some err), s)))"
  by (auto simp: EnqueueUpload_def EnqueueDownload_def Let_def split: sum.splits)

lemma enqueue_example_trims:
  "TrimSpace ''   '' = []" "TrimSpace ''b'' = ''b''" "TrimSpace '' /tmp/dir '' = ''/tmp/dir''"
  "TrimSpace ''/tmp/nothing'' = ''/tmp/nothing''" "TrimSpace ''/tmp/f.bin'' = ''/tmp/f.bin''"
  "TrimPrefix (TrimSpace '' / '') ''/'' = []"
  by code_simp+

theorem enqueue_validation_witness:
  "TrimSpace ''   '' = []
   \<and> fst (EnqueueUpload disk 5 6 () ''b'' ''p/'' ''   '' svc) = ([], Some (errors_New ''local path is empty''))
   \<and> snd (EnqueueUpload disk 5 6 () ''b'' ''p/'' ''   '' svc) = svc
   \<and> fst (EnqueueUpload disk 5 6 () ''   '' ''p/'' ''/tmp/f.bin'' svc) = ([], Some (errors_New ''bucket is empty''))
   \<and> disk (TrimSpace '' /tmp/dir '') = Inr \<lparr>fi_IsDir = True, fi_Size = 4096\<rparr>
   \<and> EnqueueUpload disk 5 6 () ''b'' ''p/'' '' /tmp/dir '' svc
       = (([], Some (errors_New ''upload currently supports files only'')), svc)
   \<and> snd (EnqueueUpload disk 5 6 () ''b'' ''p/'' ''/tmp/nothing'' svc) = svc
   \<and> TrimPrefix (TrimSpace '' / '') ''/'' = []
   \<and> EnqueueDownload 5 6 () ''b'' '' / '' ''/tmp/f.bin'' 10 svc
       = (([], Some (errors_New ''object key is empty'')), svc)"
proof -
  note t = enqueue_example_trims
  note a = enqueue_validation [of "''   ''" "''b''" disk 5 6 "()" "''p/''" svc]
  note b = enqueue_validation [of "'' /tmp/dir ''" "''b''" disk 5 6 "()" "''p/''" svc "'' / ''" 10]
  have d: "disk (TrimSpace '' /tmp/dir '') = Inr \<lparr>fi_IsDir = True, fi_Size = 4096\<rparr>"
    by (simp add: t disk_def)
  from a t(1) obtain e1 where e1: "EnqueueUpload disk 5 6 () ''b'' ''p/'' ''   '' svc = (([], Some e1), svc)"
    by blast
  from b d obtain e2 where e2: "EnqueueUpload disk 5 6 () ''b'' ''p/'' '' /tmp/dir '' svc = (([], Some e2), svc)"
    by auto
  have v: "EnqueueUpload disk 5 6 () ''b'' ''p/'' ''   '' svc = (([], Some (errors_New ''local path is empty'')), svc)"
    "fst (EnqueueUpload disk 5 6 () ''   '' ''p/'' ''/tmp/f.bin'' svc) = ([], Some (errors_New ''bucket is empty''))"
    "EnqueueUpload disk 5 6 () ''b'' ''p/'' '' /tmp/dir '' svc
       = (([], Some (errors_New ''upload currently supports files only'')), svc)"
    "snd (EnqueueUpload disk 5 6 () ''b'' ''p/'' ''/tmp/nothing'' svc) = svc"
    "EnqueueDownload 5 6 () ''b'' '' / '' ''/tmp/f.bin'' 10 svc
       = (([], Some (errors_New ''object key is empty'')), svc)"
    by (simp_all add: EnqueueUpload_def EnqueueDownload_def Let_def t disk_def)
  show ?thesis
    using e1 e2 v t d by simp
qed

lemma enqueue_accepts:
  "fst (EnqueueUpload disk 1700000000000 1700000000001 () ''b'' ''p/'' ''/tmp/f.bin'' svc)
     = (''tr-1700000000000-2'', None)"
  "map Key (events (snd (EnqueueUpload disk 1700000000000 1700000000001 () ''b'' ''p/'' ''/tmp/f.bin'' svc)))
     = [''p/f.bin'']"
  "map (TotalBytes \<circ> snd) (launched (snd (EnqueueUpload disk 1700000000000 1700000000001 () ''b'' ''p/'' ''/tmp/f.bin'' svc)))
     = [10]"
  by code_simp+

section \<open>Segment loop: what it does to the service\<close>

lemma emit_srv:
  "srv (emit force now st) = (srv st)\<lparr>events := events (srv (emit force now st))\<rparr>"
  by (simp add: emit_def emitTransferUpdate_def Let_def)

lemma emit_events:
  assumes "transferCtxSet (srv st)" "events (srv st) = ev @ snapshots st"
  shows "transferCtxSet (srv (emit force now st))
         \<and> events (srv (emit force now st)) = ev @ snapshots (emit force now st)"
  using assms by (simp add: emit_def emitTransferUpdate_def Let_def)

lemma processSegment_srv:
  assumes "processSegment sn st = Some st'"
  shows "srv st' = (srv st)\<lparr>events := events (srv st')\<rparr>"
    and "transferCtxSet (srv st) \<Longrightarrow> events (srv st) = ev @ snapshots st
         \<Longrightarrow> transferCtxSet (srv st') \<and> events (srv st') = ev @ snapshots st'"
proof -
  let ?p = "parseProgressSegment (stripANSI (fst sn))"
  let ?st2 = "st\<lparr>cur_done := nextDone ?p (TotalBytes (upd st)) (cur_done st),
                 cur_speed := (if hasSpeed ?p then speedBps ?p else cur_speed st)\<rparr>"
  have c: "st' = emit False (snd sn) ?st2 \<or> (\<exists>b. st' = ?st2\<lparr>outputTail := b\<rparr>)"
    using assms by (auto simp: processSegment_def Let_def split: if_splits option.splits)
  show "srv st' = (srv st)\<lparr>events := events (srv st')\<rparr>"
    using c emit_srv [of False "snd sn" ?st2] by auto
  show "transferCtxSet (srv st') \<and> events (srv st') = ev @ snapshots st'"
    if "transferCtxSet (srv st)" "events (srv st) = ev @ snapshots st"
    using c emit_events [of ?st2 ev False "snd sn"] that by auto
qed

lemma processSegments_srv:
  "processSegments sns st = Some st' \<Longrightarrow> srv st' = (srv st)\<lparr>events := events (srv st')\<rparr>"
proof (induction sns arbitrary: st)
  case Nil
  then show ?case by simp
next
  case (Cons sn sns)
  then obtain st1 where s1: "processSegment sn st = Some st1" "processSegments sns st1 = Some st'"
    by (auto split: option.splits)
  have "srv st' = (srv st1)\<lparr>events := events (srv st')\<rparr>"
    using Cons.IH [OF s1(2)] .
  also have "srv st1 = (srv st)\<lparr>events := events (srv st1)\<rparr>"
    using processSegment_srv(1) [OF s1(1)] .
  finally show ?case by simp
qed

lemma processSegments_events:
  "processSegments sns st = Some st' \<Longrightarrow> transferCtxSet (srv st)
   \<Longrightarrow> events (srv st) = ev @ snapshots st
   \<Longrightarrow> transferCtxSet (srv st') \<and> events (srv st') = ev @ snapshots st'"
proof (induction sns arbitrary: st)
  case Nil
  then show ?case by simp
next
  case (Cons sn sns)
  then obtain st1 where s1: "processSegment sn st = Some st1" "processSegments sns st1 = Some st'"
    by (auto split: option.splits)
  have "transferCtxSet (srv st1) \<and> events (srv st1) = ev @ snapshots st1"
    using processSegment_srv(2) [OF s1(1) Cons.prems(2,3)] .
  then show ?case
    using Cons.IH [OF s1(2)] by simp
qed

lemma events_twice:
  "a = b\<lparr>events := x\<rparr> \<Longrightarrow> c = a\<lparr>events := y\<rparr> \<Longrightarrow> c = b\<lparr>events := events c\<rparr>"
  by simp

lemma startProcess_events:
  "events (service (startProcess startCmd args s)) = events s"
  "transferCtxSet (service (startProcess startCmd args s)) = transferCtxSet s"
  by (simp_all add: startProcess_def Let_def)

text \<open>
  A run whose process started: it returns, and all it does to the service is to append
  the snapshots it emits.
\<close>

lemma run_started:
  assumes "start_err (startProcess startCmd args s) = None"
  shows "\<exists>r. runOssutilWithProgress startCmd segs waitErr fin args (Some u) s = Some r
           \<and> run_binaries r = binaries (startProcess startCmd args s)
           \<and> run_service r = (service (startProcess startCmd args s))\<lparr>events := events (run_service r)\<rparr>
           \<and> (transferCtxSet s \<longrightarrow> events (run_service r) = events s @ run_snapshots r)
           \<and> (waitErr = None \<longrightarrow> run_err r = None)
           \<and> (waitErr \<noteq> None \<longrightarrow> run_err r \<noteq> None)"
proof -
  define sr where "sr = startProcess startCmd args s"
  define ini :: "'a run_state" where
    "ini = \<lparr>upd = u, cur_done = DoneBytes u, cur_speed = SpeedBytesPerSec u,
            lastEmit = None, outputTail = newRingBuffer (16 * 1024), snapshots = [],
            srv = service sr\<rparr>"
  have i: "rb_ok (outputTail ini)" "snapshots ini = []" "srv ini = service sr"
    by (simp_all add: ini_def newRingBuffer_ok)
  obtain st where st: "processSegments segs ini = Some st"
    using processSegments_total [OF i(1), of segs] by blast
  have sv: "srv st = (service sr)\<lparr>events := events (srv st)\<rparr>"
    using processSegments_srv [OF st] unfolding i(3) .
  have ss: "events (service sr) = events s" "transferCtxSet (service sr) = transferCtxSet s"
    unfolding sr_def by (rule startProcess_events)+
  have ev: "transferCtxSet (srv st) \<and> events (srv st) = events s @ snapshots st" if "transferCtxSet s"
  proof (rule processSegments_events [OF st])
    show "transferCtxSet (srv ini)"
      unfolding i(3) ss(2) by (rule that)
    show "events (srv ini) = events s @ snapshots ini"
      unfolding i(2,3) ss(1) by simp
  qed
  define st' where "st' = emit True fin st"
  have sv': "srv st' = (service sr)\<lparr>events := events (srv st')\<rparr>"
    unfolding st'_def by (rule events_twice [OF sv emit_srv])
  have ev': "events (srv st') = events s @ snapshots st'" if "transferCtxSet s"
    unfolding st'_def using emit_events [of st "events s" True fin] ev [OF that] by blast
  have se: "start_err sr = None"
    unfolding sr_def by (rule assms)
  show ?thesis
  proof (cases waitErr)
    case None
    have "runOssutilWithProgress startCmd segs waitErr fin args (Some u) s
        = Some \<lparr>run_err = None, run_update = Some (upd st'), run_service = srv st',
                run_snapshots = snapshots st', run_binaries = binaries sr\<rparr>"
      using se st None unfolding st'_def ini_def sr_def
      by (simp add: runOssutilWithProgress_def Let_def)
    then obtain r where r: "runOssutilWithProgress startCmd segs waitErr fin args (Some u) s = Some r"
      "run_binaries r = binaries sr" "run_service r = srv st'" "run_snapshots r = snapshots st'"
      "run_err r = None"
      by simp
    have a: "run_service r = (service sr)\<lparr>events := events (run_service r)\<rparr>"
      unfolding r(3) by (rule sv')
    have b: "transferCtxSet s \<longrightarrow> events (run_service r) = events s @ run_snapshots r"
      unfolding r(3,4) using ev' by blast
    show ?thesis
      using r(1,2,5) a b None unfolding sr_def by blast
  next
    case (Some e)
    have "runOssutilWithProgress startCmd segs waitErr fin args (Some u) s
        = Some \<lparr>run_err = Some (if ringBuffer_String (outputTail st) \<noteq> []
                                 then wrap_tail e (ringBuffer_String (outputTail st)) else e),
                run_update = Some (upd st), run_service = srv st,
                run_snapshots = snapshots st, run_binaries = binaries sr\<rparr>"
      using se st Some unfolding ini_def sr_def
      by (simp add: runOssutilWithProgress_def Let_def)
    then obtain r where r: "runOssutilWithProgress startCmd segs waitErr fin args (Some u) s = Some r"
      "run_binaries r = binaries sr" "run_service r = srv st" "run_snapshots r = snapshots st"
      "run_err r \<noteq> None"
      by simp
    have a: "run_service r = (service sr)\<lparr>events := events (run_service r)\<rparr>"
      unfolding r(3) by (rule sv)
    have b: "transferCtxSet s \<longrightarrow> events (run_service r) = events s @ run_snapshots r"
      unfolding r(3,4) using ev by blast
    show ?thesis
      using r(1,2,5) a b Some unfolding sr_def by blast
  qed
qed

lemma run_not_started:
  assumes "start_err (startProcess startCmd args s) = Some e"
  shows "runOssutilWithProgress startCmd segs waitErr fin args (Some u) s
         = Some \<lparr>run_err = Some (wrap_prefix ''failed to start ossutil: '' e), run_update = Some u,
                 run_service = service (startProcess startCmd args s), run_snapshots = [],
                 run_binaries = binaries (startProcess startCmd args s)\<rparr>"
  using assms by (simp add: runOssutilWithProgress_def Let_def)

lemma bin_run_total:
  "\<exists>r. runOssutilWithProgress startCmd segs waitErr fin args (Some u) s = Some r
       \<and> run_binaries r = binaries (startProcess startCmd args s)
       \<and> ossutilPath (run_service r) = ossutilPath (service (startProcess startCmd args s))"
proof (cases "start_err (startProcess startCmd args s)")
  case None
  obtain r where r: "runOssutilWithProgress startCmd segs waitErr fin args (Some u) s = Some r"
    "run_binaries r = binaries (startProcess startCmd args s)"
    "run_service r = (service (startProcess startCmd args s))\<lparr>events := events (run_service r)\<rparr>"
    using run_started [OF None, of segs waitErr fin u] by blast
  have "ossutilPath (run_service r) = ossutilPath (service (startProcess startCmd args s))"
    by (subst r(3)) simp
  then show ?thesis
    using r(1,2) by simp
next
  case (Some e)
  show ?thesis
    using run_not_started [OF Some, of segs waitErr fin u] by simp
qed

section \<open>Claim about the binary fallback\<close>

lemma primaryPath_after_fallback:
  assumes "fallbackPath s \<noteq> []"
  shows "primaryPath (s\<lparr>ossutilPath := fallbackPath s, events := ev\<rparr>) = fallbackPath s"
    and "fallbackPath (s\<lparr>ossutilPath := fallbackPath s, events := ev\<rparr>) = fallbackPath s"
  using assms by (simp_all add: primaryPath_def fallbackPath_def Let_def TrimSpace_idem)

lemma startProcess_no_retry:
  assumes "primaryPath s = fallbackPath s"
  shows "binaries (startProcess startCmd args s) = [primaryPath s]"
    and "service (startProcess startCmd args s) = s"
  using assms by (simp_all add: startProcess_def Let_def)

lemma run_retry_started:
  assumes h: "startCmd (primaryPath s) args = Some e" "ossutilStartFailed (Some e)"
      "fallbackPath s \<noteq> []" "fallbackPath s \<noteq> primaryPath s"
    and n: "startCmd (fallbackPath s) args = None"
  shows "\<exists>r. runOssutilWithProgress startCmd segs waitErr fin args (Some u) s = Some r
           \<and> run_binaries r = [primaryPath s, fallbackPath s]
           \<and> run_service r = s\<lparr>ossutilPath := fallbackPath s, events := events (run_service r)\<rparr>
           \<and> primaryPath (run_service r) = fallbackPath s
           \<and> (\<forall>startCmd2 segs2 waitErr2 fin2 args2 u2.
                 \<exists>r2. runOssutilWithProgress startCmd2 segs2 waitErr2 fin2 args2 (Some u2)
                         (run_service r) = Some r2
                    \<and> run_binaries r2 = [fallbackPath s]
                    \<and> ossutilPath (run_service r2) = fallbackPath s)"
proof -
  let ?fb = "fallbackPath s"
  have sp: "startProcess startCmd args s =
      \<lparr>binaries = [primaryPath s, ?fb], start_err = None, service = s\<lparr>ossutilPath := ?fb\<rparr>\<rparr>"
    using h n by (simp add: startProcess_def Let_def)
  have se: "start_err (startProcess startCmd args s) = None"
    and bs: "binaries (startProcess startCmd args s) = [primaryPath s, ?fb]"
    and sv: "service (startProcess startCmd args s) = s\<lparr>ossutilPath := ?fb\<rparr>"
    by (simp_all add: sp)
  obtain r where r: "runOssutilWithProgress startCmd segs waitErr fin args (Some u) s = Some r"
    "run_binaries r = [primaryPath s, ?fb]"
    "run_service r = s\<lparr>ossutilPath := ?fb, events := events (run_service r)\<rparr>"
    using run_started [OF se, of segs waitErr fin u] unfolding bs sv by blast
  define s2 where "s2 = run_service r"
  define ev where "ev = events (run_service r)"
  have s2: "s2 = s\<lparr>ossutilPath := ?fb, events := ev\<rparr>"
    unfolding s2_def ev_def by (rule r(3))
  have p: "primaryPath s2 = ?fb" and f: "fallbackPath s2 = ?fb"
    unfolding s2 by (rule primaryPath_after_fallback [OF h(3)])+
  have o: "ossutilPath s2 = ?fb"
    unfolding s2 by simp
  have pf: "primaryPath s2 = fallbackPath s2"
    unfolding p f ..
  have nxt: "\<exists>r2. runOssutilWithProgress startCmd2 segs2 waitErr2 fin2 args2 (Some u2) s2 = Some r2
                         \<and> run_binaries r2 = [?fb]
                         \<and> ossutilPath (run_service r2) = ?fb"
    for startCmd2 segs2 waitErr2 fin2 args2 u2
    using bin_run_total [of startCmd2 segs2 waitErr2 fin2 args2 u2 s2]
    unfolding startProcess_no_retry [OF pf] p o .
  have all: "\<forall>startCmd2 segs2 waitErr2 fin2 args2 u2.
                 \<exists>r2. runOssutilWithProgress startCmd2 segs2 waitErr2 fin2 args2 (Some u2) s2 = Some r2
                    \<and> run_binaries r2 = [?fb]
                    \<and> ossutilPath (run_service r2) = ?fb"
    by (intro allI) (rule nxt)
  show ?thesis
    using r p all unfolding s2_def by blast
qed

lemma run_retry_failed:
  assumes h: "startCmd (primaryPath s) args = Some e" "ossutilStartFailed (Some e)"
      "fallbackPath s \<noteq> []" "fallbackPath s \<noteq> primaryPath s"
    and n: "startCmd (fallbackPath s) args = Some e2"
  shows "runOssutilWithProgress startCmd segs waitErr fin args (Some u) s
         = Some \<lparr>run_err = Some (wrap_prefix ''failed to start ossutil: '' e2),
                 run_update = Some u, run_service = s, run_snapshots = [],
                 run_binaries = [primaryPath s, fallbackPath s]\<rparr>"
proof -
  have sp: "startProcess startCmd args s =
      \<lparr>binaries = [primaryPath s, fallbackPath s], start_err = Some e2, service = s\<rparr>"
    using h n by (simp add: startProcess_def Let_def)
  then have se: "start_err (startProcess startCmd args s) = Some e2"
    by simp
  show ?thesis
    using run_not_started [OF se, of segs waitErr fin u] by (simp add: sp)
qed

lemma run_no_retry:
  assumes h: "startCmd (primaryPath s) args = Some e"
      "\<not> ossutilStartFailed (Some e) \<or> fallbackPath s = [] \<or> fallbackPath s = primaryPath s"
  shows "runOssutilWithProgress startCmd segs waitErr fin args (Some u) s
         = Some \<lparr>run_err = Some (wrap_prefix ''failed to start ossutil: '' e),
                 run_update = Some u, run_service = s, run_snapshots = [],
                 run_binaries = [primaryPath s]\<rparr>"
proof -
  have sp: "startProcess startCmd args s = \<lparr>binaries = [primaryPath s], start_err = Some e, service = s\<rparr>"
    using h by (auto simp: startProcess_def Let_def)
  then have se: "start_err (startProcess startCmd args s) = Some e"
    by simp
  show ?thesis
    using run_not_started [OF se, of segs waitErr fin u] by (simp add: sp)
qed

lemma run_primary_started:
  assumes h: "startCmd (primaryPath s) args = None"
  shows "\<exists>r. runOssutilWithProgress startCmd segs waitErr fin args (Some u) s = Some r
           \<and> run_binaries r = [primaryPath s]
           \<and> run_service r = s\<lparr>events := events (run_service r)\<rparr>
           \<and> (waitErr \<noteq> None \<longrightarrow> run_err r \<noteq> None)"
proof -
  have sp: "startProcess startCmd args s = \<lparr>binaries = [primaryPath s], start_err = None, service = s\<rparr>"
    using h by (simp add: startProcess_def Let_def)
  then have se: "start_err (startProcess startCmd args s) = None"
    and bs: "binaries (startProcess startCmd args s) = [primaryPath s]"
    and sv: "service (startProcess startCmd args s) = s"
    by simp_all
  from run_started [OF se, of segs waitErr fin u]
  obtain r where r: "runOssutilWithProgress startCmd segs waitErr fin args (Some u) s = Some r"
    "run_binaries r = binaries (startProcess startCmd args s)"
    "run_service r = (service (startProcess startCmd args s))\<lparr>events := events (run_service r)\<rparr>"
    "waitErr \<noteq> None \<longrightarrow> run_err r \<noteq> None"
    by (elim exE conjE) (erule (3) that)
  have b: "run_binaries r = [primaryPath s]"
    using r(2) by (simp only: bs)
  have c: "run_service r = s\<lparr>events := events (run_service r)\<rparr>"
    using r(3) by (simp only: sv)
  show ?thesis
    by (rule exI [of _ r], intro conjI) (rule r(1), rule b, rule c, rule r(4))
qed

text \<open>
  Claim C3: when starting the primary binary fails with a could-not-start error
  (\<open>ossutilStartFailed\<close>: no \<open>ExitError\<close> in the chain, and not found, not exist or
  permission denied) and the fallback path is non-empty and differs from the primary,
  \<open>runOssutilWithProgress\<close> calls \<open>startCmd\<close> exactly once more, with the fallback. If that
  succeeds the run goes on and stores the fallback as \<open>ossutilPath\<close>, so that every later
  run on the resulting service starts the fallback, and nothing else; if it fails the run
  returns the wrapped error of the fallback with the service as it was. Any other start
  error, in particular one that is an \<open>ExitError\<close>, is returned wrapped without a retry
  and with the service as it was. A process that did start is never retried either: the
  run calls \<open>startCmd\<close> once, returns the error of \<open>cmd.Wait\<close> if there is one, and changes
  nothing of the service but the events it emits.
\<close>

theorem fallback_retry_policy:
  "(ossutilStartFailed (Some e) \<longleftrightarrow>
      ExitError \<notin> set (err_chain e)
      \<and> (ErrNotFound \<in> set (err_chain e) \<or> ErrNotExist \<in> set (err_chain e)
          \<or> ErrPermission \<in> set (err_chain e)))
   \<and> (ExitError \<in> set (err_chain e) \<longrightarrow> \<not> ossutilStartFailed (Some e))
   \<and> (startCmd (primaryPath s) args = Some e \<and> ossutilStartFailed (Some e)
        \<and> fallbackPath s \<noteq> [] \<and> fallbackPath s \<noteq> primaryPath s \<longrightarrow>
        (\<exists>r. runOssutilWithProgress startCmd segs waitErr fin args (Some u) s = Some r
           \<and> run_binaries r = [primaryPath s, fallbackPath s]
           \<and> (startCmd (fallbackPath s) args = None \<longrightarrow>
                run_service r = s\<lparr>ossutilPath := fallbackPath s, events := events (run_service r)\<rparr>
                \<and> primaryPath (run_service r) = fallbackPath s
                \<and> (\<forall>startCmd2 segs2 waitErr2 fin2 args2 u2.
                      \<exists>r2. runOssutilWithProgress startCmd2 segs2 waitErr2 fin2 args2 (Some u2)
                              (run_service r) = Some r2
                         \<and> run_binaries r2 = [fallbackPath s]
                         \<and> ossutilPath (run_service r2) = fallbackPath s))
           \<and> (\<forall>e2. startCmd (fallbackPath s) args = Some e2 \<longrightarrow>
                r = \<lparr>run_err = Some (wrap_prefix ''failed to start ossutil: '' e2),
                     run_update = Some u, run_service = s, run_snapshots = [],
                     run_binaries = [primaryPath s, fallbackPath s]\<rparr>)))
   \<and> (startCmd (primaryPath s) args = Some e
        \<and> (\<not> ossutilStartFailed (Some e) \<or> fallbackPath s = [] \<or> fallbackPath s = primaryPath s)
        \<longrightarrow> runOssutilWithProgress startCmd segs waitErr fin args (Some u) s
             = Some \<lparr>run_err = Some (wrap_prefix ''failed to start ossutil: '' e),
                     run_update = Some u, run_service = s, run_snapshots = [],
                     run_binaries = [primaryPath s]\<rparr>)
   \<and> (startCmd (primaryPath s) args = None \<longrightarrow>
        (\<exists>r. runOssutilWithProgress startCmd segs waitErr fin args (Some u) s = Some r
           \<and> run_binaries r = [primaryPath s]
           \<and> run_service r = s\<lparr>events := events (run_service r)\<rparr>
           \<and> (waitErr \<noteq> None \<longrightarrow> run_err r \<noteq> None)))"
proof -
  let ?run = "runOssutilWithProgress startCmd segs waitErr fin args (Some u) s"
  let ?fb = "fallbackPath s"
  have cls: "ossutilStartFailed (Some e) \<longleftrightarrow>
      ExitError \<notin> set (err_chain e)
      \<and> (ErrNotFound \<in> set (err_chain e) \<or> ErrNotExist \<in> set (err_chain e)
          \<or> ErrPermission \<in> set (err_chain e))"
    by (simp add: ossutilStartFailed_def)
  have retry: "\<exists>r. ?run = Some r
           \<and> run_binaries r = [primaryPath s, ?fb]
           \<and> (startCmd ?fb args = None \<longrightarrow>
                run_service r = s\<lparr>ossutilPath := ?fb, events := events (run_service r)\<rparr>
                \<and> primaryPath (run_service r) = ?fb
                \<and> (\<forall>startCmd2 segs2 waitErr2 fin2 args2 u2.
                      \<exists>r2. runOssutilWithProgress startCmd2 segs2 waitErr2 fin2 args2 (Some u2)
                              (run_service r) = Some r2
                         \<and> run_binaries r2 = [?fb]
                         \<and> ossutilPath (run_service r2) = ?fb))
           \<and> (\<forall>e2. startCmd ?fb args = Some e2 \<longrightarrow>
                r = \<lparr>run_err = Some (wrap_prefix ''failed to start ossutil: '' e2),
                     run_update = Some u, run_service = s, run_snapshots = [],
                     run_binaries = [primaryPath s, ?fb]\<rparr>)"
    if h: "startCmd (primaryPath s) args = Some e" "ossutilStartFailed (Some e)"
      "?fb \<noteq> []" "?fb \<noteq> primaryPath s"
  proof (cases "startCmd ?fb args")
    case None
    from run_retry_started [where startCmd = startCmd and s = s and args = args and segs = segs
        and waitErr = waitErr and fin = fin and u = u, OF h None] obtain r where
      r: "?run = Some r" "run_binaries r = [primaryPath s, ?fb]"
      and a: "run_service r = s\<lparr>ossutilPath := ?fb, events := events (run_service r)\<rparr>
              \<and> primaryPath (run_service r) = ?fb
              \<and> (\<forall>startCmd2 segs2 waitErr2 fin2 args2 u2.
                      \<exists>r2. runOssutilWithProgress startCmd2 segs2 waitErr2 fin2 args2 (Some u2)
                              (run_service r) = Some r2
                         \<and> run_binaries r2 = [?fb]
                         \<and> ossutilPath (run_service r2) = ?fb)"
      by blast
    have b: "\<forall>e2. startCmd ?fb args = Some e2 \<longrightarrow>
                r = \<lparr>run_err = Some (wrap_prefix ''failed to start ossutil: '' e2),
                     run_update = Some u, run_service = s, run_snapshots = [],
                     run_binaries = [primaryPath s, ?fb]\<rparr>"
      unfolding None by simp
    have a': "startCmd ?fb args = None \<longrightarrow>
                run_service r = s\<lparr>ossutilPath := ?fb, events := events (run_service r)\<rparr>
                \<and> primaryPath (run_service r) = ?fb
                \<and> (\<forall>startCmd2 segs2 waitErr2 fin2 args2 u2.
                      \<exists>r2. runOssutilWithProgress startCmd2 segs2 waitErr2 fin2 args2 (Some u2)
                              (run_service r) = Some r2
                         \<and> run_binaries r2 = [?fb]
                         \<and> ossutilPath (run_service r2) = ?fb)"
      by (rule impI) (rule a)
    show ?thesis
      by (rule exI [of _ r], intro conjI) (rule r(1), rule r(2), rule a', rule b)
  next
    case (Some e2)
    let ?r = "\<lparr>run_err = Some (wrap_prefix ''failed to start ossutil: '' e2),
                     run_update = Some u, run_service = s, run_snapshots = [],
                     run_binaries = [primaryPath s, ?fb]\<rparr>"
    have r: "?run = Some ?r"
      by (rule run_retry_failed [where startCmd = startCmd and s = s and args = args, OF h Some])
    show ?thesis
      unfolding r Some by simp
  qed
  have noretry: "?run = Some \<lparr>run_err = Some (wrap_prefix ''failed to start ossutil: '' e),
                     run_update = Some u, run_service = s, run_snapshots = [],
                     run_binaries = [primaryPath s]\<rparr>"
    if "startCmd (primaryPath s) args = Some e"
      "\<not> ossutilStartFailed (Some e) \<or> ?fb = [] \<or> ?fb = primaryPath s"
    using that by (rule run_no_retry)
  have started: "\<exists>r. ?run = Some r
           \<and> run_binaries r = [primaryPath s]
           \<and> run_service r = s\<lparr>events := events (run_service r)\<rparr>
           \<and> (waitErr \<noteq> None \<longrightarrow> run_err r \<noteq> None)"
    if "startCmd (primaryPath s) args = None"
    using that by (rule run_primary_started)
  have ex: "ExitError \<in> set (err_chain e) \<longrightarrow> \<not> ossutilStartFailed (Some e)"
    using cls by blast
  show ?thesis
    apply (intro conjI)
        apply (rule cls)
       apply (rule ex)
      apply (intro impI, elim conjE, erule (3) retry)
     apply (intro impI, elim conjE, erule (1) noretry)
    apply (intro impI, erule started)
    done
qed

lemma fallback_example_paths:
  "primaryPath svc_missing = ''/opt/missing/ossutil''"
  "fallbackPath svc_missing = ''/usr/local/bin/ossutil''"
  "primaryPath svc = ''ossutil''"
  by code_simp+

theorem fallback_retry_policy_witness:
  "only_fallback_starts (primaryPath svc_missing) [] = Some enoent
   \<and> ossutilStartFailed (Some enoent)
   \<and> fallbackPath svc_missing \<noteq> [] \<and> fallbackPath svc_missing \<noteq> primaryPath svc_missing
   \<and> only_fallback_starts (fallbackPath svc_missing) [] = None
   \<and> map_option run_binaries
        (runOssutilWithProgress only_fallback_starts [] None (at_ms 0) [] (Some job1000) svc_missing)
       = Some [''/opt/missing/ossutil'', ''/usr/local/bin/ossutil'']
   \<and> map_option (\<lambda>r. ossutilPath (run_service r))
        (runOssutilWithProgress only_fallback_starts [] None (at_ms 0) [] (Some job1000) svc_missing)
       = Some ''/usr/local/bin/ossutil''
   \<and> Option.bind
        (runOssutilWithProgress only_fallback_starts [] None (at_ms 0) [] (Some job1000) svc_missing)
        (\<lambda>r. map_option run_binaries
                (runOssutilWithProgress only_fallback_starts [] None (at_ms 0) [] (Some job1000)
                   (run_service r)))
       = Some [''/usr/local/bin/ossutil'']
   \<and> ExitError \<in> set (err_chain exit1) \<and> \<not> ossutilStartFailed (Some exit1)
   \<and> runOssutilWithProgress (\<lambda>b a. Some exit1) [] None (at_ms 0) [] (Some job1000) svc_missing
       = Some \<lparr>run_err = Some (wrap_prefix ''failed to start ossutil: '' exit1),
               run_update = Some job1000, run_service = svc_missing, run_snapshots = [],
               run_binaries = [''/opt/missing/ossutil'']\<rparr>
   \<and> starts (primaryPath svc) [] = None
   \<and> map_option run_binaries
        (runOssutilWithProgress starts [] (Some exit1) (at_ms 0) [] (Some job1000) svc)
       = Some [''ossutil'']
   \<and> map_option run_err
        (runOssutilWithProgress starts [] (Some exit1) (at_ms 0) [] (Some job1000) svc)
       = Some (Some exit1)"
proof -
  note p = fallback_example_paths
  let ?pr = "''/opt/missing/ossutil''" and ?fb = "''/usr/local/bin/ossutil''"
  have h1: "only_fallback_starts ?pr [] = Some enoent" "only_fallback_starts ?fb [] = None"
    "?fb \<noteq> []" "?fb \<noteq> ?pr"
    by (simp_all add: only_fallback_starts_def)
  have h2: "ossutilStartFailed (Some enoent)" "ExitError \<in> set (err_chain exit1)"
    by (simp_all add: ossutilStartFailed_def enoent_def exit1_def)
  have h3: "starts ''ossutil'' [] = None"
    by (simp add: starts_def)
  have h4: "(\<lambda>b a. Some exit1) ?pr ([] :: string list) = Some exit1"
    by simp
  note a = fallback_retry_policy [of enoent only_fallback_starts svc_missing "[]" "[]" None
      "at_ms 0" job1000, unfolded p]
  note b = fallback_retry_policy [of exit1 "\<lambda>b a. Some exit1" svc_missing "[]" "[]" None
      "at_ms 0" job1000, unfolded p]
  note c = fallback_retry_policy [of exit1 starts svc "[]" "[]" "Some exit1" "at_ms 0" job1000,
      unfolded p]
  have ha: "only_fallback_starts ?pr [] = Some enoent \<and> ossutilStartFailed (Some enoent)
            \<and> ?fb \<noteq> [] \<and> ?fb \<noteq> ?pr"
    by (intro conjI) (rule h1(1), rule h2(1), rule h1(3), rule h1(4))
  from a [THEN conjunct2, THEN conjunct2, THEN conjunct1, THEN mp, OF ha]
  obtain r where r:
    "runOssutilWithProgress only_fallback_starts [] None (at_ms 0) [] (Some job1000) svc_missing = Some r"
    "run_binaries r = [?pr, ?fb]"
    and ri: "only_fallback_starts ?fb [] = None \<longrightarrow>
       run_service r = svc_missing\<lparr>ossutilPath := ?fb, events := events (run_service r)\<rparr>
       \<and> primaryPath (run_service r) = ?fb
       \<and> (\<forall>startCmd2 segs2 waitErr2 fin2 args2 u2.
             \<exists>r2. runOssutilWithProgress startCmd2 segs2 waitErr2 fin2 args2 (Some u2) (run_service r) = Some r2
                 \<and> run_binaries r2 = [?fb]
                 \<and> ossutilPath (run_service r2) = ?fb)"
    by (elim exE conjE) (erule (2) that)
  note rj = ri [THEN mp, OF h1(2)]
  have
    r3: "run_service r = svc_missing\<lparr>ossutilPath := ?fb, events := events (run_service r)\<rparr>"
    and r4: "\<forall>startCmd2 segs2 waitErr2 fin2 args2 u2.
        \<exists>r2. runOssutilWithProgress startCmd2 segs2 waitErr2 fin2 args2 (Some u2) (run_service r) = Some r2
            \<and> run_binaries r2 = [?fb]
            \<and> ossutilPath (run_service r2) = ?fb"
    by (rule rj [THEN conjunct1], rule rj [THEN conjunct2, THEN conjunct2])
  have r5: "ossutilPath (run_service r) = ?fb"
    by (subst r3) simp
  from r4 [rule_format, of only_fallback_starts "[]" None "at_ms 0" "[]" job1000]
  obtain r2 where r2:
    "runOssutilWithProgress only_fallback_starts [] None (at_ms 0) [] (Some job1000) (run_service r) = Some r2"
    "run_binaries r2 = [?fb]"
    by (elim exE conjE) (erule (1) that)
  have b1: "\<not> ossutilStartFailed (Some exit1)"
    by (rule b [THEN conjunct2, THEN conjunct1, THEN mp, OF h2(2)])
  have hb: "(\<lambda>b a. Some exit1) ?pr ([] :: string list) = Some exit1
            \<and> (\<not> ossutilStartFailed (Some exit1) \<or> ?fb = [] \<or> ?fb = ?pr)"
    by (intro conjI disjI1) (rule h4, rule b1)
  have b2: "runOssutilWithProgress (\<lambda>b a. Some exit1) [] None (at_ms 0) [] (Some job1000) svc_missing
       = Some \<lparr>run_err = Some (wrap_prefix ''failed to start ossutil: '' exit1),
               run_update = Some job1000, run_service = svc_missing, run_snapshots = [],
               run_binaries = [?pr]\<rparr>"
    by (rule b [THEN conjunct2, THEN conjunct2, THEN conjunct2, THEN conjunct1, THEN mp, OF hb])
  from c [THEN conjunct2, THEN conjunct2, THEN conjunct2, THEN conjunct2, THEN mp, OF h3]
  obtain q where q:
    "runOssutilWithProgress starts [] (Some exit1) (at_ms 0) [] (Some job1000) svc = Some q"
    "run_binaries q = [''ossutil'']"
    by (elim exE conjE) (erule (1) that)
  have q3: "map_option run_err
        (runOssutilWithProgress starts [] (Some exit1) (at_ms 0) [] (Some job1000) svc)
       = Some (Some exit1)"
    by code_simp
  have g1: "map_option run_binaries
        (runOssutilWithProgress only_fallback_starts [] None (at_ms 0) [] (Some job1000) svc_missing)
       = Some [?pr, ?fb]"
    unfolding r(1) using r(2) by simp
  have g2: "map_option (\<lambda>r. ossutilPath (run_service r))
        (runOssutilWithProgress only_fallback_starts [] None (at_ms 0) [] (Some job1000) svc_missing)
       = Some ?fb"
    unfolding r(1) using r5 by simp
  have g3: "Option.bind
        (runOssutilWithProgress only_fallback_starts [] None (at_ms 0) [] (Some job1000) svc_missing)
        (\<lambda>r. map_option run_binaries
                (runOssutilWithProgress only_fallback_starts [] None (at_ms 0) [] (Some job1000)
                   (run_service r)))
       = Some [?fb]"
    unfolding r(1) using r2 by simp
  have g4: "map_option run_binaries
        (runOssutilWithProgress starts [] (Some exit1) (at_ms 0) [] (Some job1000) svc)
       = Some [''ossutil'']"
    unfolding q(1) using q(2) by simp
  show ?thesis
    unfolding p
    by (intro conjI) (rule h1(1), rule h2(1), rule h1(3), rule h1(4), rule h1(2), rule g1, rule g2,
        rule g3, rule h2(2), rule b1, rule b2, rule h3, rule g4, rule q3)
qed

end
